theory Spec2Isabelle
  imports Main "HOL-Library.List_Lexorder" "HOL-Library.Product_Lexorder"
    "HOL-Library.Option_ord" "HOL-Library.Multiset" "HOL-Library.Sublist"
begin

section \<open>Strings and query classification\<close>

text \<open>
  A string is the list of its Unicode code points, and is taken to be well formed (no lone
  surrogate). The regular expressions of
  \<^verbatim>\<open>detectQueryType\<close> carry no \<^verbatim>\<open>u\<close> flag, so JavaScript applies
  them to UTF-16 code units; a code point above U+FFFF reaches them as two surrogate
  units (U+D800..U+DFFF), and no class of the three expressions holds a surrogate or a code
  point above U+FFFF, so both views classify alike. SQLite's \<^verbatim>\<open>LENGTH\<close>,
  \<^verbatim>\<open>LIKE\<close> and \<^verbatim>\<open>MIN\<close> work on code points (the byte order of UTF-8 is the
  order of the code points).
\<close>

type_synonym ustring = "nat list"

definition ustr :: "string \<Rightarrow> ustring" where
  "ustr s = map of_char s"

datatype qtype = QKanji | QKana | QEnglish | QAll

text \<open>
  The class of the first test, \<^verbatim>\<open>/[X-Y]/\<close>, is stored in the source file as
  UTF-8 read through code page 1252; decoded, X is U+4E00 and Y is U+9FAF (the code's
  comment: "common Unicode range"). The class of the second test is
  U+3040..U+30FF together with the prolonged sound mark U+30FC.
\<close>

definition is_kanji_char :: "nat \<Rightarrow> bool" where
  "is_kanji_char c = (0x4E00 \<le> c \<and> c \<le> 0x9FAF)"

definition is_kana_char :: "nat \<Rightarrow> bool" where
  "is_kana_char c = ((0x3040 \<le> c \<and> c \<le> 0x30FF) \<or> c = 0x30FC)"

text \<open>The white-space class of ECMAScript regular expressions: white space and line terminators.\<close>

definition is_js_space :: "nat \<Rightarrow> bool" where
  "is_js_space c =
     (c = 0x09 \<or> c = 0x0A \<or> c = 0x0B \<or> c = 0x0C \<or> c = 0x0D \<or> c = 0x20 \<or> c = 0xA0
      \<or> c = 0x1680 \<or> (0x2000 \<le> c \<and> c \<le> 0x200A) \<or> c = 0x2028 \<or> c = 0x2029
      \<or> c = 0x202F \<or> c = 0x205F \<or> c = 0x3000 \<or> c = 0xFEFF)"

definition is_english_char :: "nat \<Rightarrow> bool" where
  "is_english_char c =
     ((0x61 \<le> c \<and> c \<le> 0x7A) \<or> (0x41 \<le> c \<and> c \<le> 0x5A) \<or> is_js_space c)"

definition detectQueryType :: "ustring \<Rightarrow> qtype" where
  "detectQueryType query =
     (if list_ex is_kanji_char query then QKanji
      else if query \<noteq> [] \<and> list_all is_kana_char query then QKana
      else if query \<noteq> [] \<and> list_all is_english_char query then QEnglish
      else QAll)"

text \<open>
  The block the Unicode standard names CJK Unified Ideographs is U+4E00..U+9FFF.
\<close>

definition cjk_unified_ideograph :: "nat \<Rightarrow> bool" where
  "cjk_unified_ideograph c = (0x4E00 \<le> c \<and> c \<le> 0x9FFF)"

section \<open>The data store\<close>

text \<open>
  The schema is not part of the sources; the statements fix what is used of it: a table
  \<^verbatim>\<open>entries(id)\<close> and three tables \<^verbatim>\<open>kanji\<close>, \<^verbatim>\<open>readings\<close>,
  \<^verbatim>\<open>meanings\<close>, each with a rowid, an \<^verbatim>\<open>entry_id\<close> and one text column
  (a row is the triple of the three; the text is never \<^verbatim>\<open>NULL\<close>). An
  \<^verbatim>\<open>entry_id\<close> need not be an id of \<^verbatim>\<open>entries\<close>, and ids may repeat.
  The three full-text indexes are external: each is taken as a function from the
  \<^verbatim>\<open>MATCH\<close> expression to the rowids it selects, or to the message of the error
  the engine raises on it. \<open>bare_row\<close> is the engine's choice of the row of a group that
  supplies the columns used outside an aggregate (SQLite leaves the choice open).
\<close>

datatype sqlval = SqlNull | SqlInt int | SqlText ustring

type_synonym jsobj = "(string \<times> sqlval) list"

type_synonym field_table = "(int \<times> int \<times> ustring) list"

type_synonym jrow = "int \<times> ustring option \<times> ustring option \<times> ustring option"

record store =
  entries :: "int list"
  kanji :: field_table
  readings :: field_table
  meanings :: field_table
  kanji_fts :: "ustring \<Rightarrow> string + int list"
  readings_fts :: "ustring \<Rightarrow> string + int list"
  meanings_fts :: "ustring \<Rightarrow> string + int list"
  bare_row :: "jrow list \<Rightarrow> jrow"

datatype field = FKanji | FReading | FMeaning

fun table_of :: "store \<Rightarrow> field \<Rightarrow> field_table" where
  "table_of s FKanji = kanji s"
| "table_of s FReading = readings s"
| "table_of s FMeaning = meanings s"

fun fts_of :: "store \<Rightarrow> field \<Rightarrow> ustring \<Rightarrow> string + int list" where
  "fts_of s FKanji = kanji_fts s"
| "fts_of s FReading = readings_fts s"
| "fts_of s FMeaning = meanings_fts s"

fun col :: "field \<Rightarrow> jrow \<Rightarrow> ustring option" where
  "col FKanji (e, k, r, m) = k"
| "col FReading (e, k, r, m) = r"
| "col FMeaning (e, k, r, m) = m"

subsection \<open>Operators of SQLite\<close>

text \<open>
  A bound string keeps every character, also U+0000: \<^verbatim>\<open>=\<close>, \<^verbatim>\<open>MIN\<close> and
  \<^verbatim>\<open>GROUP_CONCAT\<close> work on the whole of it. \<^verbatim>\<open>LIKE\<close> and
  \<^verbatim>\<open>LENGTH\<close> read a string as C does, up to its first U+0000.
\<close>

definition c_string :: "ustring \<Rightarrow> ustring" where
  "c_string v = takeWhile (\<lambda>c. c \<noteq> 0) v"

text \<open>
  \<^verbatim>\<open>value LIKE pattern\<close> with SQLite's defaults (no \<^verbatim>\<open>ESCAPE\<close>, no
  \<^verbatim>\<open>PRAGMA case_sensitive_like\<close>; the code sets neither): \<^verbatim>\<open>%\<close> (37) stands
  for any run of characters, \<^verbatim>\<open>_\<close> (95) for any one character, and every other
  character for itself, upper and lower case ASCII letters taken as equal
  (\<open>patternCompare\<close>); the pattern and the value are both read up to their first U+0000.
  SQLite refuses a pattern of more than 50000 bytes; a query of a request line is shorter.
\<close>

definition ascii_lower :: "nat \<Rightarrow> nat" where
  "ascii_lower c = (if 0x41 \<le> c \<and> c \<le> 0x5A then c + 0x20 else c)"

fun patternCompare :: "ustring \<Rightarrow> ustring \<Rightarrow> bool" where
  "patternCompare [] [] = True"
| "patternCompare [] (c # cs) = False"
| "patternCompare (p # ps) [] = (p = 37 \<and> patternCompare ps [])"
| "patternCompare (p # ps) (c # cs) =
     (if p = 37 then patternCompare ps (c # cs) \<or> patternCompare (p # ps) cs
      else (p = 95 \<or> ascii_lower p = ascii_lower c) \<and> patternCompare ps cs)"

definition like :: "ustring \<Rightarrow> ustring \<Rightarrow> bool" where
  "like pat v = patternCompare (c_string pat) (c_string v)"

text \<open>A comparison with \<^verbatim>\<open>NULL\<close> is not true.\<close>

fun like_opt :: "ustring \<Rightarrow> ustring option \<Rightarrow> bool" where
  "like_opt pat None = False"
| "like_opt pat (Some v) = like pat v"

definition distinct_first :: "'a list \<Rightarrow> 'a list" where
  "distinct_first xs = rev (remdups (rev xs))"

fun join_comma :: "ustring list \<Rightarrow> ustring" where
  "join_comma [] = []"
| "join_comma [v] = v"
| "join_comma (v # w # vs) = v @ 44 # join_comma (w # vs)"

text \<open>\<^verbatim>\<open>GROUP_CONCAT(DISTINCT x)\<close>: the values that are not \<^verbatim>\<open>NULL\<close>, each once,
  joined by commas; \<^verbatim>\<open>NULL\<close> when there is none.\<close>

definition group_concat_distinct :: "ustring option list \<Rightarrow> sqlval" where
  "group_concat_distinct xs =
     (case distinct_first (List.map_filter id xs) of [] \<Rightarrow> SqlNull | v # vs \<Rightarrow> SqlText (join_comma (v # vs)))"

text \<open>\<^verbatim>\<open>LENGTH(MIN(x))\<close>: \<^verbatim>\<open>MIN\<close> is the least value that is not \<^verbatim>\<open>NULL\<close> in the
  binary collation, the lexicographic order of the code points; \<^verbatim>\<open>LENGTH\<close> counts
  the characters before the first U+0000; both give \<^verbatim>\<open>NULL\<close> on \<^verbatim>\<open>NULL\<close>.\<close>

definition sql_length :: "ustring \<Rightarrow> nat" where
  "sql_length v = length (c_string v)"

definition sql_min :: "ustring option list \<Rightarrow> ustring option" where
  "sql_min xs = (case List.map_filter id xs of [] \<Rightarrow> None | v # vs \<Rightarrow> Some (min_list (v # vs)))"

definition length_min :: "ustring option list \<Rightarrow> nat option" where
  "length_min xs = map_option sql_length (sql_min xs)"

subsection \<open>The parts of the statements\<close>

text \<open>\<^verbatim>\<open>SELECT entry_id FROM t WHERE col LIKE ?\<close>\<close>

definition like_ids :: "store \<Rightarrow> field \<Rightarrow> ustring \<Rightarrow> int list" where
  "like_ids s f pat = map (fst \<circ> snd) (filter (\<lambda>row. like pat (snd (snd row))) (table_of s f))"

text \<open>\<^verbatim>\<open>SELECT entry_id FROM t WHERE rowid IN (SELECT rowid FROM t_fts WHERE t_fts MATCH ?)\<close>\<close>

definition fts_ids :: "store \<Rightarrow> field \<Rightarrow> ustring \<Rightarrow> string + int list" where
  "fts_ids s f expr =
     (case fts_of s f expr of
        Inl msg \<Rightarrow> Inl msg
      | Inr rowids \<Rightarrow> Inr (map (fst \<circ> snd) (filter (\<lambda>row. fst row \<in> set rowids) (table_of s f))))"

text \<open>The values of an entry in a table: the rows with \<^verbatim>\<open>entry_id = e.id\<close>.\<close>

definition values_of :: "store \<Rightarrow> field \<Rightarrow> int \<Rightarrow> ustring list" where
  "values_of s f e = map (snd \<circ> snd) (filter (\<lambda>row. fst (snd row) = e) (table_of s f))"

text \<open>\<^verbatim>\<open>LEFT JOIN t ON e.id = t.entry_id\<close>: the values of the entry in \<open>t\<close>, or one
  \<^verbatim>\<open>NULL\<close> when it has none.\<close>

definition left_join :: "store \<Rightarrow> field \<Rightarrow> int \<Rightarrow> ustring option list" where
  "left_join s f e = (case values_of s f e of [] \<Rightarrow> [None] | v # vs \<Rightarrow> map Some (v # vs))"

definition joined :: "store \<Rightarrow> jrow list" where
  "joined s =
     concat (map (\<lambda>e.
       concat (map (\<lambda>k.
         concat (map (\<lambda>r.
           map (\<lambda>m. (e, k, r, m)) (left_join s FMeaning e))
         (left_join s FReading e)))
       (left_join s FKanji e)))
     (entries s))"

text \<open>The \<^verbatim>\<open>CASE\<close> under \<^verbatim>\<open>MIN(...) AS match_type\<close>, for one field and for all three.\<close>

definition case_single :: "field \<Rightarrow> ustring \<Rightarrow> ustring \<Rightarrow> jrow \<Rightarrow> int" where
  "case_single f p1 p2 row =
     (if col f row = Some p1 then 1 else if like_opt p2 (col f row) then 2 else 3)"

definition case_all :: "ustring \<Rightarrow> ustring \<Rightarrow> ustring \<Rightarrow> ustring \<Rightarrow> ustring \<Rightarrow> ustring \<Rightarrow> jrow \<Rightarrow> int" where
  "case_all p1 p2 p3 p4 p5 p6 row =
     (if col FKanji row = Some p1 \<or> col FReading row = Some p2 \<or> col FMeaning row = Some p3 then 1
      else if like_opt p4 (col FKanji row) \<or> like_opt p5 (col FReading row)
              \<or> like_opt p6 (col FMeaning row) then 2
      else 3)"

text \<open>The second term of \<^verbatim>\<open>ORDER BY\<close>; \<^verbatim>\<open>NULL\<close> (\<open>None\<close>) sorts first.\<close>

definition order_single :: "field \<Rightarrow> jrow list \<Rightarrow> nat option" where
  "order_single f g = length_min (map (col f) g)"

definition order_all :: "store \<Rightarrow> ustring \<Rightarrow> ustring \<Rightarrow> jrow list \<Rightarrow> nat option" where
  "order_all s p10 p11 g =
     (if like_opt p10 (col FKanji (bare_row s g)) then length_min (map (col FKanji) g)
      else if like_opt p11 (col FReading (bare_row s g)) then length_min (map (col FReading) g)
      else length_min (map (col FMeaning) g))"

text \<open>The rows of the join that pass \<^verbatim>\<open>WHERE e.id IN (...)\<close>, and their groups under
  \<^verbatim>\<open>GROUP BY e.id\<close>, each with its id.\<close>

definition groups :: "store \<Rightarrow> int list \<Rightarrow> (int \<times> jrow list) list" where
  "groups s ids =
     (let rows = filter (\<lambda>row. fst row \<in> set ids) (joined s)
      in map (\<lambda>e. (e, filter (\<lambda>row. fst row = e) rows)) (remdups (map fst rows)))"

definition columns :: "int \<Rightarrow> jrow list \<Rightarrow> jsobj" where
  "columns e g =
     [(''id'', SqlInt e),
      (''kanji'', group_concat_distinct (map (col FKanji) g)),
      (''readings'', group_concat_distinct (map (col FReading) g)),
      (''meanings'', group_concat_distinct (map (col FMeaning) g))]"

text \<open>\<^verbatim>\<open>MIN(CASE ... END) AS match_type\<close> over the rows of a group.\<close>

definition match_type :: "(jrow \<Rightarrow> int) \<Rightarrow> jrow list \<Rightarrow> int" where
  "match_type cs g = min_list (map cs g)"

text \<open>A statement of \<^verbatim>\<open>index2.js\<close>: the groups ordered by \<open>match_type\<close> and the
  second term of \<^verbatim>\<open>ORDER BY\<close>, cut by \<^verbatim>\<open>LIMIT 50\<close>, each giving the four columns
  and \<open>match_type\<close>. Groups with equal keys keep the order of \<open>groups\<close> (SQLite leaves
  their order open).\<close>

definition select_ranked ::
  "store \<Rightarrow> int list \<Rightarrow> (jrow \<Rightarrow> int) \<Rightarrow> (jrow list \<Rightarrow> nat option) \<Rightarrow> jsobj list" where
  "select_ranked s ids cs ord =
     take 50 (map (\<lambda>eg. columns (fst eg) (snd eg) @ [(''match_type'', SqlInt (match_type cs (snd eg)))])
       (sort_key (\<lambda>eg. (match_type cs (snd eg), ord (snd eg))) (groups s ids)))"


subsection \<open>The statements and their parameters\<close>

datatype pass = Primary | Fallback

datatype stmt = Stmt qtype pass

fun field_of :: "qtype \<Rightarrow> field option" where
  "field_of QKanji = Some FKanji"
| "field_of QKana = Some FReading"
| "field_of QEnglish = Some FMeaning"
| "field_of QAll = None"

text \<open>\<^verbatim>\<open>stmt.all\<close> raises when the number of values differs from the number of
  \<^verbatim>\<open>?\<close> in the statement.\<close>

definition arity_error :: "nat \<Rightarrow> ustring list \<Rightarrow> string" where
  "arity_error n params =
     (if length params < n then ''Too few parameter values were provided''
      else ''Too many parameter values were provided'')"

text \<open>The \<^verbatim>\<open>UNION\<close> of the three full-text subqueries.\<close>

definition fts_ids_all :: "store \<Rightarrow> ustring \<Rightarrow> ustring \<Rightarrow> ustring \<Rightarrow> string + int list" where
  "fts_ids_all s p7 p8 p9 =
     (case fts_ids s FKanji p7 of
        Inl msg \<Rightarrow> Inl msg
      | Inr a \<Rightarrow>
          (case fts_ids s FReading p8 of
             Inl msg \<Rightarrow> Inl msg
           | Inr b \<Rightarrow>
               (case fts_ids s FMeaning p9 of
                  Inl msg \<Rightarrow> Inl msg
                | Inr c \<Rightarrow> Inr (a @ b @ c))))"

definition exec_single :: "store \<Rightarrow> field \<Rightarrow> pass \<Rightarrow> ustring list \<Rightarrow> string + jsobj list" where
  "exec_single s f pass params =
     (case params of
        [p1, p2, p3] \<Rightarrow>
          (case pass of
             Primary \<Rightarrow>
               Inr (select_ranked s (like_ids s f p3) (case_single f p1 p2) (order_single f))
           | Fallback \<Rightarrow>
               (case fts_ids s f p3 of
                  Inl msg \<Rightarrow> Inl msg
                | Inr ids \<Rightarrow> Inr (select_ranked s ids (case_single f p1 p2) (order_single f))))
      | _ \<Rightarrow> Inl (arity_error 3 params))"

definition exec_all :: "store \<Rightarrow> pass \<Rightarrow> ustring list \<Rightarrow> string + jsobj list" where
  "exec_all s pass params =
     (case params of
        [p1, p2, p3, p4, p5, p6, p7, p8, p9, p10, p11] \<Rightarrow>
          (case pass of
             Primary \<Rightarrow>
               Inr (select_ranked s
                      (like_ids s FKanji p7 @ like_ids s FReading p8 @ like_ids s FMeaning p9)
                      (case_all p1 p2 p3 p4 p5 p6) (order_all s p10 p11))
           | Fallback \<Rightarrow>
               (case fts_ids_all s p7 p8 p9 of
                  Inl msg \<Rightarrow> Inl msg
                | Inr ids \<Rightarrow>
                    Inr (select_ranked s ids (case_all p1 p2 p3 p4 p5 p6) (order_all s p10 p11))))
      | _ \<Rightarrow> Inl (arity_error 11 params))"

text \<open>The eight statements of \<^verbatim>\<open>index2.js\<close> on a store.\<close>

definition exec_stmt :: "store \<Rightarrow> stmt \<Rightarrow> ustring list \<Rightarrow> string + jsobj list" where
  "exec_stmt s st params =
     (case st of Stmt qt pass \<Rightarrow>
        (case field_of qt of
           Some f \<Rightarrow> exec_single s f pass params
         | None \<Rightarrow> exec_all s pass params))"




section \<open>The search route\<close>

text \<open>
  The handler reaches the store only through \<^verbatim>\<open>db.prepare(sql)\<close> followed by
  \<^verbatim>\<open>stmt.all(values)\<close>; a \<open>db\<close> gives, for a statement and its values, the rows or
  the message of the error raised. The handler is modelled over any \<open>db\<close> and returns,
  beside the response, the trace of what it did: the classification and the statements run,
  in order. \<^verbatim>\<open>req.query.q\<close> is taken to be absent or a string.
\<close>

type_synonym db = "stmt \<Rightarrow> ustring list \<Rightarrow> string + jsobj list"

datatype qparam = QMissing | QString ustring

datatype event = Classify ustring | Query stmt "ustring list"

datatype body = ErrorBody string | ErrorDetails string string | Results "jsobj list"

type_synonym response = "nat \<times> body"

definition pct :: "ustring \<Rightarrow> ustring" where
  "pct query = 37 # query @ [37]"

definition star :: "ustring \<Rightarrow> ustring" where
  "star query = query @ [42]"

definition primary_params :: "qtype \<Rightarrow> ustring \<Rightarrow> ustring list" where
  "primary_params qt query =
     (if qt = QAll
      then [query, query, query, pct query, pct query, pct query,
            pct query, pct query, pct query, pct query, pct query]
      else [query, pct query, pct query])"

definition fallback_params :: "qtype \<Rightarrow> ustring \<Rightarrow> ustring list" where
  "fallback_params qt query =
     (if qt = QAll
      then [query, query, query, pct query, pct query, pct query,
            star query, star query, star query, pct query, pct query]
      else [query, pct query, star query])"

text \<open>The body of \<^verbatim>\<open>try\<close> up to the value of \<^verbatim>\<open>results\<close> before
  \<open>match_type\<close> is removed.\<close>

definition run_search :: "db \<Rightarrow> qtype \<Rightarrow> ustring \<Rightarrow> (string + jsobj list) \<times> event list" where
  "run_search db qt query =
     (case db (Stmt qt Primary) (primary_params qt query) of
        Inl msg \<Rightarrow> (Inl msg, [Query (Stmt qt Primary) (primary_params qt query)])
      | Inr results \<Rightarrow>
          if length results = 0
          then (db (Stmt qt Fallback) (fallback_params qt query),
                [Query (Stmt qt Primary) (primary_params qt query),
                 Query (Stmt qt Fallback) (fallback_params qt query)])
          else (Inr results, [Query (Stmt qt Primary) (primary_params qt query)]))"

definition remove_match_type :: "jsobj \<Rightarrow> jsobj" where
  "remove_match_type result = filter (\<lambda>kv. fst kv \<noteq> ''match_type'') result"

definition search_handler :: "db \<Rightarrow> qparam \<Rightarrow> response \<times> event list" where
  "search_handler db q =
     (case q of
        QMissing \<Rightarrow> ((400, ErrorBody ''Missing query parameter: q''), [])
      | QString query \<Rightarrow>
          if query = [] then ((400, ErrorBody ''Missing query parameter: q''), [])
          else
            (case run_search db (detectQueryType query) query of
               (Inl msg, trace) \<Rightarrow>
                 ((500, ErrorDetails ''Database search error'' msg), Classify query # trace)
             | (Inr results, trace) \<Rightarrow>
                 ((200, Results (map remove_match_type results)), Classify query # trace)))"

subsection \<open>The route of the version without ranking\<close>





section \<open>Notions of the claims\<close>

text \<open>The fields that a category searches.\<close>

fun search_fields :: "qtype \<Rightarrow> field list" where
  "search_fields QKanji = [FKanji]"
| "search_fields QKana = [FReading]"
| "search_fields QEnglish = [FMeaning]"
| "search_fields QAll = [FKanji, FReading, FMeaning]"

text \<open>The rank of an entry for a query, read off the tables: 1 when a value of a searched
  field equals the query, 2 when one matches \<^verbatim>\<open>LIKE '%query%'\<close>, 3 otherwise.\<close>

definition has_exact :: "store \<Rightarrow> qtype \<Rightarrow> ustring \<Rightarrow> int \<Rightarrow> bool" where
  "has_exact s qt q e = list_ex (\<lambda>f. q \<in> set (values_of s f e)) (search_fields qt)"

definition has_like :: "store \<Rightarrow> qtype \<Rightarrow> ustring \<Rightarrow> int \<Rightarrow> bool" where
  "has_like s qt q e = list_ex (\<lambda>f. list_ex (like (pct q)) (values_of s f e)) (search_fields qt)"

definition rank :: "store \<Rightarrow> qtype \<Rightarrow> ustring \<Rightarrow> int \<Rightarrow> int" where
  "rank s qt q e = (if has_exact s qt q e then 1 else if has_like s qt q e then 2 else 3)"

text \<open>\<^verbatim>\<open>LENGTH\<close> of the entry's least value of a field in the order of the code
  points; \<open>None\<close> when the entry has no value of the field.\<close>

definition least_value_length :: "store \<Rightarrow> field \<Rightarrow> int \<Rightarrow> nat option" where
  "least_value_length s f e =
     (case values_of s f e of [] \<Rightarrow> None | v # vs \<Rightarrow> Some (sql_length (Min (set (v # vs)))))"

text \<open>The rows of the join that belong to an entry: its group under
  \<^verbatim>\<open>GROUP BY e.id\<close>.\<close>

definition entry_rows :: "store \<Rightarrow> int \<Rightarrow> jrow list" where
  "entry_rows s e = filter (\<lambda>row. fst row = e) (joined s)"

text \<open>The second term of \<^verbatim>\<open>ORDER BY\<close> for an entry, read off the tables. In the kanji,
  kana and English categories it is \<^verbatim>\<open>LENGTH\<close> of the least value of the searched
  field. In the mixed category it is the \<^verbatim>\<open>CASE\<close> of the statement on the row that
  the engine picks among the entry's rows: \<^verbatim>\<open>LENGTH\<close> of the least kanji form when
  the kanji form of that row matches the pattern, else of the least reading when its reading
  matches, else of the least meaning.\<close>

definition second_key :: "store \<Rightarrow> qtype \<Rightarrow> ustring \<Rightarrow> int \<Rightarrow> nat option" where
  "second_key s qt q e =
     (case field_of qt of
        Some f \<Rightarrow> least_value_length s f e
      | None \<Rightarrow>
          if like_opt (pct q) (col FKanji (bare_row s (entry_rows s e)))
          then least_value_length s FKanji e
          else if like_opt (pct q) (col FReading (bare_row s (entry_rows s e)))
          then least_value_length s FReading e
          else least_value_length s FMeaning e)"

text \<open>The second key as C1 words it: the length of the shortest value of the field that
  matches the pattern, for an entry that has one.\<close>

definition shortest_match_length :: "store \<Rightarrow> field \<Rightarrow> ustring \<Rightarrow> int \<Rightarrow> nat" where
  "shortest_match_length s f q e =
     min_list (map length (filter (like (pct q)) (values_of s f e)))"

text \<open>An entry has a value of a searched field that contains the query, upper and lower
  case ASCII letters taken as equal; the value is read up to its first U+0000.\<close>

definition contains_nocase :: "store \<Rightarrow> qtype \<Rightarrow> ustring \<Rightarrow> int \<Rightarrow> bool" where
  "contains_nocase s qt q e =
     list_ex (\<lambda>f. list_ex (\<lambda>v. sublist (map ascii_lower q) (map ascii_lower (c_string v)))
                   (values_of s f e))
       (search_fields qt)"

text \<open>\<open>x\<close> is the list of the values, each once and in some order, joined by commas;
  \<^verbatim>\<open>NULL\<close> when there is no value.\<close>

definition joined_distinct :: "ustring list \<Rightarrow> sqlval \<Rightarrow> bool" where
  "joined_distinct vals x =
     (\<exists>vs. distinct vs \<and> set vs = set vals
        \<and> x = (case vs of [] \<Rightarrow> SqlNull | v # ws \<Rightarrow> SqlText (join_comma (v # ws))))"

text \<open>The rows of a response body; none for an error body.\<close>

fun result_rows :: "body \<Rightarrow> jsobj list" where
  "result_rows (Results rows) = rows"
| "result_rows (ErrorBody msg) = []"
| "result_rows (ErrorDetails msg details) = []"

text \<open>The event is the run of a full-text statement.\<close>

definition is_fallback :: "event \<Rightarrow> bool" where
  "is_fallback ev = (case ev of Query (Stmt qt Fallback) params \<Rightarrow> True | _ \<Rightarrow> False)"


subsection \<open>The statements in one form\<close>

text \<open>What the route hands to the statements of a category, for a query: the
  \<^verbatim>\<open>CASE\<close>, the second term of \<^verbatim>\<open>ORDER BY\<close> and the ids of the
  subquery of each pass; \<open>result_groups\<close> are the groups that a statement returns, before
  their columns are computed.\<close>

definition case_fn :: "qtype \<Rightarrow> ustring \<Rightarrow> jrow \<Rightarrow> int" where
  "case_fn qt q =
     (case field_of qt of
        Some f \<Rightarrow> case_single f q (pct q)
      | None \<Rightarrow> case_all q q q (pct q) (pct q) (pct q))"

definition order_fn :: "store \<Rightarrow> qtype \<Rightarrow> ustring \<Rightarrow> jrow list \<Rightarrow> nat option" where
  "order_fn s qt q =
     (case field_of qt of Some f \<Rightarrow> order_single f | None \<Rightarrow> order_all s (pct q) (pct q))"

definition primary_ids :: "store \<Rightarrow> qtype \<Rightarrow> ustring \<Rightarrow> int list" where
  "primary_ids s qt q = concat (map (\<lambda>f. like_ids s f (pct q)) (search_fields qt))"

definition fallback_ids :: "store \<Rightarrow> qtype \<Rightarrow> ustring \<Rightarrow> string + int list" where
  "fallback_ids s qt q =
     (case field_of qt of
        Some f \<Rightarrow> fts_ids s f (star q)
      | None \<Rightarrow> fts_ids_all s (star q) (star q) (star q))"

definition result_groups ::
  "store \<Rightarrow> int list \<Rightarrow> (jrow \<Rightarrow> int) \<Rightarrow> (jrow list \<Rightarrow> nat option) \<Rightarrow> (int \<times> jrow list) list" where
  "result_groups s ids cs ord =
     take 50 (sort_key (\<lambda>eg. (match_type cs (snd eg), ord (snd eg))) (groups s ids))"

section \<open>Example stores\<close>

text \<open>Two entries: the first with the meanings \<^verbatim>\<open>cats\<close> and
  \<^verbatim>\<open>a cat is nice\<close>, the second with the meaning \<^verbatim>\<open>tomcat\<close>.\<close>

definition store_cats :: store where
  "store_cats =
     \<lparr>entries = [1, 2], kanji = [], readings = [],
      meanings = [(1, 1, ustr ''cats''), (2, 1, ustr ''a cat is nice''), (3, 2, ustr ''tomcat'')],
      kanji_fts = (\<lambda>expr. Inr []), readings_fts = (\<lambda>expr. Inr []),
      meanings_fts = (\<lambda>expr. Inr []), bare_row = hd\<rparr>"

text \<open>Two entries: the first with the kanji form \<^verbatim>\<open>100\<close> only, the second with the
  reading \<^verbatim>\<open>a1\<close> only.\<close>

definition store_mixed :: store where
  "store_mixed =
     \<lparr>entries = [1, 2], kanji = [(1, 1, ustr ''100'')], readings = [(1, 2, ustr ''a1'')],
      meanings = [],
      kanji_fts = (\<lambda>expr. Inr []), readings_fts = (\<lambda>expr. Inr []),
      meanings_fts = (\<lambda>expr. Inr []), bare_row = hd\<rparr>"

text \<open>A store with one meaning and a full-text index on it that answers the expression
  \<^verbatim>\<open>to eat*\<close> with that row, as a word index does.\<close>

definition store_eat :: store where
  "store_eat =
     \<lparr>entries = [1], kanji = [], readings = [],
      meanings = [(1, 1, ustr ''eat to live'')],
      kanji_fts = (\<lambda>expr. Inr []), readings_fts = (\<lambda>expr. Inr []),
      meanings_fts = (\<lambda>expr. if expr = ustr ''to eat*'' then Inr [1] else Inr []),
      bare_row = hd\<rparr>"

text \<open>A store on which the three full-text indexes reject the expression made of a double
  quote and \<^verbatim>\<open>*\<close>, an unterminated string.\<close>

definition store_fts_quote :: store where
  "store_fts_quote =
     \<lparr>entries = [1], kanji = [], readings = [],
      meanings = [(1, 1, ustr ''cat'')],
      kanji_fts = (\<lambda>expr. if expr = [34, 42] then Inl ''unterminated string'' else Inr []),
      readings_fts = (\<lambda>expr. if expr = [34, 42] then Inl ''unterminated string'' else Inr []),
      meanings_fts = (\<lambda>expr. if expr = [34, 42] then Inl ''unterminated string'' else Inr []),
      bare_row = hd\<rparr>"

text \<open>A store handle on which every statement fails.\<close>

definition db_unreachable :: db where
  "db_unreachable st params = Inl ''disk I/O error''"

text \<open>Sixty entries, each with the meaning \<^verbatim>\<open>cat\<close>.\<close>

definition store_sixty :: store where
  "store_sixty =
     \<lparr>entries = map int [1..<61], kanji = [], readings = [],
      meanings = map (\<lambda>i. (int i, int i, ustr ''cat'')) [1..<61],
      kanji_fts = (\<lambda>expr. Inr []), readings_fts = (\<lambda>expr. Inr []),
      meanings_fts = (\<lambda>expr. Inr []), bare_row = hd\<rparr>"

text \<open>One entry with one kanji form (U+98DF U+3079 U+308B), two readings and two
  meanings.\<close>

definition store_taberu :: store where
  "store_taberu =
     \<lparr>entries = [1], kanji = [(1, 1, [0x98DF, 0x3079, 0x308B])],
      readings = [(1, 1, [0x305F, 0x3079, 0x308B]), (2, 1, [0x30BF, 0x30D9, 0x30EB])],
      meanings = [(1, 1, ustr ''to eat''), (2, 1, ustr ''to live on'')],
      kanji_fts = (\<lambda>expr. Inr []), readings_fts = (\<lambda>expr. Inr []),
      meanings_fts = (\<lambda>expr. Inr []), bare_row = hd\<rparr>"

text \<open>Sixty entries with the kanji form U+65E5 U+672C and entry 61 with the form
  U+65E5.\<close>

definition store_many :: store where
  "store_many =
     \<lparr>entries = map int [1..<61] @ [61],
      kanji = map (\<lambda>i. (int i, int i, [0x65E5, 0x672C])) [1..<61] @ [(61, 61, [0x65E5])],
      readings = [], meanings = [],
      kanji_fts = (\<lambda>expr. Inr []), readings_fts = (\<lambda>expr. Inr []),
      meanings_fts = (\<lambda>expr. Inr []), bare_row = hd\<rparr>"

text \<open>Two entries with the same kanji form U+65E5; the second has the form
  U+4E00 U+4E8C as well.\<close>

definition store_homograph :: store where
  "store_homograph =
     \<lparr>entries = [1, 2],
      kanji = [(1, 1, [0x65E5]), (2, 2, [0x65E5]), (3, 2, [0x4E00, 0x4E8C])],
      readings = [], meanings = [],
      kanji_fts = (\<lambda>expr. Inr []), readings_fts = (\<lambda>expr. Inr []),
      meanings_fts = (\<lambda>expr. Inr []), bare_row = hd\<rparr>"

text \<open>One entry whose meaning is \<^verbatim>\<open>Japan\<close>, with a capital letter.\<close>

definition store_japan :: store where
  "store_japan =
     \<lparr>entries = [1], kanji = [], readings = [],
      meanings = [(1, 1, ustr ''Japan'')],
      kanji_fts = (\<lambda>expr. Inr []), readings_fts = (\<lambda>expr. Inr []),
      meanings_fts = (\<lambda>expr. Inr []), bare_row = hd\<rparr>"

section \<open>Classification\<close>

text \<open>
  C7, as the code has it: every string holding at least one code point of U+4E00..U+9FAF,
  the part of the CJK Unified Ideographs block that the first test covers, is classified
  as kanji, whatever else the string holds; the kana, English and mixed rules are not
  consulted.
\<close>

theorem detectQueryType_kanji_precedence:
  assumes "c \<in> set query" and "is_kanji_char c"
  shows "detectQueryType query = QKanji"
  using assms by (auto simp: detectQueryType_def list_ex_iff)

theorem detectQueryType_kanji_precedence_witness:
  "0x98DF \<in> set [0x98DF, 0x3079, 0x308B, 0x31, 0x32, 0x33 :: nat] \<and> is_kanji_char 0x98DF
   \<and> detectQueryType [0x98DF, 0x3079, 0x308B, 0x31, 0x32, 0x33] = QKanji"
  using detectQueryType_kanji_precedence [of "0x98DF" "[0x98DF, 0x3079, 0x308B, 0x31, 0x32, 0x33]"]
  by (simp add: is_kanji_char_def)

text \<open>
  C7 as stated fails: U+9FB0 lies in the CJK Unified Ideographs block and above U+9FAF,
  and the one-character query made of it is classified as mixed.
\<close>

theorem detectQueryType_cjk_block_counterexample:
  "[0x9FB0 :: nat] \<noteq> [] \<and> list_ex cjk_unified_ideograph [0x9FB0]
   \<and> detectQueryType [0x9FB0] = QAll"
  by (simp add: cjk_unified_ideograph_def detectQueryType_def is_kanji_char_def
      is_kana_char_def is_english_char_def is_js_space_def)

section \<open>The LIKE operator\<close>

lemma patternCompare_percent_any: "patternCompare [37] v"
  by (induction v) auto

lemma patternCompare_percent_split:
  "patternCompare (37 # pat) v = (\<exists>pre post. v = pre @ post \<and> patternCompare pat post)"
proof (induction v)
  case Nil
  then show ?case by simp
next
  case (Cons c cs)
  have "(\<exists>pre post. c # cs = pre @ post \<and> patternCompare pat post)
        = (patternCompare pat (c # cs) \<or> (\<exists>pre post. cs = pre @ post \<and> patternCompare pat post))"
    by (auto simp: Cons_eq_append_conv)
  with Cons show ?case by simp
qed

lemma patternCompare_percent_skip: "patternCompare pat v \<Longrightarrow> patternCompare (37 # pat) v"
  unfolding patternCompare_percent_split by (metis append_Nil)

lemma patternCompare_self_prefix: "patternCompare (q @ [37]) (q @ t)"
proof (induction q)
  case Nil
  show ?case by (simp add: patternCompare_percent_any)
next
  case (Cons p ps)
  show ?case
  proof (cases "p = 37")
    case True
    have "patternCompare (37 # ps @ [37]) (ps @ t)"
      using Cons by (rule patternCompare_percent_skip)
    with True show ?thesis by simp
  next
    case False
    with Cons show ?thesis by simp
  qed
qed

lemma patternCompare_self: "patternCompare q q"
proof (induction q)
  case Nil
  show ?case by simp
next
  case (Cons p ps)
  show ?case
  proof (cases "p = 37")
    case True
    have "patternCompare (37 # ps) ps" using Cons by (rule patternCompare_percent_skip)
    with True show ?thesis by simp
  next
    case False
    with Cons show ?thesis by simp
  qed
qed

lemma c_string_no_nul: "0 \<notin> set v \<Longrightarrow> c_string v = v"
  by (induction v) (auto simp: c_string_def)

lemma c_string_pct:
  "c_string (pct q) = (if 0 \<in> set q then 37 # c_string q else pct q)"
proof (cases "0 \<in> set q")
  case True
  then have "takeWhile (\<lambda>c. c \<noteq> 0) (q @ [37]) = takeWhile (\<lambda>c. c \<noteq> 0) q"
    by (intro takeWhile_append1 [where x = 0]) auto
  with True show ?thesis by (simp add: c_string_def pct_def)
next
  case False
  then have "0 \<notin> set (pct q)" by (simp add: pct_def)
  with False show ?thesis by (simp add: c_string_no_nul)
qed

lemma like_pct_self: "like (pct q) q"
proof (cases "0 \<in> set q")
  case True
  have "patternCompare (37 # c_string q) (c_string q)"
    using patternCompare_self by (rule patternCompare_percent_skip)
  with True show ?thesis by (simp add: like_def c_string_pct)
next
  case False
  have "patternCompare (37 # q @ [37]) q"
    using patternCompare_self_prefix [of q "[]"] by (simp add: patternCompare_percent_skip)
  with False show ?thesis by (simp add: like_def c_string_pct c_string_no_nul pct_def)
qed

lemma patternCompare_prefix_nocase:
  assumes "37 \<notin> set q" and "95 \<notin> set q"
  shows "patternCompare (q @ [37]) t = prefix (map ascii_lower q) (map ascii_lower t)"
  using assms
proof (induction q arbitrary: t)
  case Nil
  show ?case by (simp add: patternCompare_percent_any)
next
  case (Cons p ps)
  then have IH: "patternCompare (ps @ [37]) u = prefix (map ascii_lower ps) (map ascii_lower u)"
    for u
    by simp
  from Cons.prems have p: "p \<noteq> 37" "p \<noteq> 95" by auto
  show ?case
  proof (cases t)
    case Nil
    with p show ?thesis by simp
  next
    case (Cons c cs)
    with p IH show ?thesis by auto
  qed
qed

lemma patternCompare_pct_nocase:
  assumes "37 \<notin> set q" and "95 \<notin> set q"
  shows "patternCompare (37 # q @ [37]) v = sublist (map ascii_lower q) (map ascii_lower v)"
proof (induction v)
  case Nil
  have "patternCompare (37 # q @ [37]) [] = patternCompare (q @ [37]) []" by simp
  then show ?case unfolding patternCompare_prefix_nocase [OF assms] by simp
next
  case (Cons c cs)
  have "patternCompare (37 # q @ [37]) (c # cs)
      = (patternCompare (q @ [37]) (c # cs) \<or> patternCompare (37 # q @ [37]) cs)"
    by simp
  then show ?case
    using Cons unfolding patternCompare_prefix_nocase [OF assms]
    by (simp add: sublist_Cons_right)
qed

lemma like_pct_nocase:
  assumes "0 \<notin> set q" and "37 \<notin> set q" and "95 \<notin> set q"
  shows "like (pct q) v = sublist (map ascii_lower q) (map ascii_lower (c_string v))"
proof -
  have "c_string (pct q) = 37 # q @ [37]"
    using assms(1) by (simp add: c_string_pct) (simp add: pct_def)
  then show ?thesis
    unfolding like_def using patternCompare_pct_nocase [OF assms(2,3)] by simp
qed

text \<open>A pattern that holds U+0000 ends there: \<^verbatim>\<open>'%a<NUL>zzz%'\<close> is
  \<^verbatim>\<open>'%a'\<close>.\<close>

lemma like_pattern_cut_at_nul:
  "like (pct [97, 0, 122, 122, 122]) (ustr ''banana'')"
  "\<not> like (pct [97, 0, 122, 122, 122]) (ustr ''bananas'')"
  by (simp_all add: like_def c_string_def pct_def ustr_def ascii_lower_def)

lemma wildcard_free_kana_english:
  assumes "detectQueryType q = QKana \<or> detectQueryType q = QEnglish"
  shows "0 \<notin> set q \<and> 37 \<notin> set q \<and> 95 \<notin> set q"
proof -
  have "list_all is_kana_char q \<or> list_all is_english_char q"
    using assms by (auto simp: detectQueryType_def split: if_splits)
  moreover have "\<not> is_kana_char 0" "\<not> is_kana_char 37" "\<not> is_kana_char 95"
    "\<not> is_english_char 0" "\<not> is_english_char 37" "\<not> is_english_char 95"
    by (simp_all add: is_kana_char_def is_english_char_def is_js_space_def)
  ultimately show ?thesis by (auto simp: list_all_iff)
qed

section \<open>The join and its groups\<close>

lemma left_join_nonempty: "left_join s f e \<noteq> []"
  by (simp add: left_join_def split: list.splits)

lemma set_left_join:
  "set (left_join s f e) =
     (if values_of s f e = [] then {None} else Some ` set (values_of s f e))"
  by (auto simp: left_join_def split: list.splits)

lemma values_left_join: "(Some v \<in> set (left_join s f e)) = (v \<in> set (values_of s f e))"
  by (auto simp: set_left_join)

lemma like_opt_left_join:
  "(\<exists>x \<in> set (left_join s f e). like_opt p x) = (\<exists>v \<in> set (values_of s f e). like p v)"
  by (auto simp: set_left_join)

lemma set_joined:
  "set (joined s) =
     {(e, k, r, m). e \<in> set (entries s) \<and> k \<in> set (left_join s FKanji e)
        \<and> r \<in> set (left_join s FReading e) \<and> m \<in> set (left_join s FMeaning e)}"
  by (auto simp: joined_def)

lemma fst_set_joined: "fst ` set (joined s) = set (entries s)"
proof -
  have "\<exists>k r m. k \<in> set (left_join s FKanji e) \<and> r \<in> set (left_join s FReading e)
          \<and> m \<in> set (left_join s FMeaning e)" for e
    using left_join_nonempty [of s] by (meson ex_in_conv set_empty)
  then show ?thesis
    by (auto simp: set_joined image_iff)
qed

lemma map_fst_groups:
  "map fst (groups s ids) = remdups (map fst (filter (\<lambda>row. fst row \<in> set ids) (joined s)))"
  by (simp add: groups_def Let_def comp_def)

lemma distinct_groups: "distinct (map fst (groups s ids))"
  by (simp add: map_fst_groups)

lemma set_fst_groups: "fst ` set (groups s ids) = {e \<in> set (entries s). e \<in> set ids}"
proof -
  have "fst ` set (groups s ids) = set (map fst (groups s ids))" by simp
  also have "\<dots> = {e \<in> fst ` set (joined s). e \<in> set ids}"
    unfolding map_fst_groups by auto
  finally show ?thesis by (simp add: fst_set_joined)
qed

lemma length_groups: "length (groups s ids) = card {e \<in> set (entries s). e \<in> set ids}"
proof -
  have "length (groups s ids) = length (map fst (groups s ids))" by simp
  also have "\<dots> = card (set (map fst (groups s ids)))"
    using distinct_groups [of s ids] by (simp only: distinct_card)
  also have "\<dots> = card {e \<in> set (entries s). e \<in> set ids}"
    using set_fst_groups [of s ids] by simp
  finally show ?thesis .
qed

lemma group_rows:
  assumes "(e, g) \<in> set (groups s ids)"
  shows "e \<in> set (entries s)" and "e \<in> set ids"
    and "set g = {row \<in> set (joined s). fst row = e}"
proof -
  from assms have "e \<in> fst ` set (groups s ids)" by force
  then show e: "e \<in> set (entries s)" "e \<in> set ids" by (auto simp: set_fst_groups)
  from assms have "g = filter (\<lambda>row. fst row = e) (filter (\<lambda>row. fst row \<in> set ids) (joined s))"
    by (auto simp: groups_def Let_def)
  with e show "set g = {row \<in> set (joined s). fst row = e}" by auto
qed

lemma group_col:
  assumes "(e, g) \<in> set (groups s ids)"
  shows "col f ` set g = set (left_join s f e)"
proof -
  have e: "e \<in> set (entries s)" and g: "set g = {row \<in> set (joined s). fst row = e}"
    using group_rows [OF assms] by auto
  obtain k r m where krm: "k \<in> set (left_join s FKanji e)" "r \<in> set (left_join s FReading e)"
      "m \<in> set (left_join s FMeaning e)"
    using left_join_nonempty [of s] by (meson ex_in_conv set_empty)
  have sg: "set g = {e} \<times> set (left_join s FKanji e) \<times> set (left_join s FReading e)
                  \<times> set (left_join s FMeaning e)"
    unfolding g set_joined using e by auto
  show ?thesis
  proof (cases f)
    case FKanji
    have "col FKanji ` set g = set (left_join s FKanji e)"
    proof (intro equalityI subsetI)
      fix x assume "x \<in> col FKanji ` set g"
      then show "x \<in> set (left_join s FKanji e)" unfolding sg by auto
    next
      fix x assume "x \<in> set (left_join s FKanji e)"
      then have "(e, x, r, m) \<in> set g" unfolding sg using krm by simp
      then have "col FKanji (e, x, r, m) \<in> col FKanji ` set g" by (rule imageI)
      then show "x \<in> col FKanji ` set g" by simp
    qed
    with FKanji show ?thesis by simp
  next
    case FReading
    have "col FReading ` set g = set (left_join s FReading e)"
    proof (intro equalityI subsetI)
      fix x assume "x \<in> col FReading ` set g"
      then show "x \<in> set (left_join s FReading e)" unfolding sg by auto
    next
      fix x assume "x \<in> set (left_join s FReading e)"
      then have "(e, k, x, m) \<in> set g" unfolding sg using krm by simp
      then have "col FReading (e, k, x, m) \<in> col FReading ` set g" by (rule imageI)
      then show "x \<in> col FReading ` set g" by simp
    qed
    with FReading show ?thesis by simp
  next
    case FMeaning
    have "col FMeaning ` set g = set (left_join s FMeaning e)"
    proof (intro equalityI subsetI)
      fix x assume "x \<in> col FMeaning ` set g"
      then show "x \<in> set (left_join s FMeaning e)" unfolding sg by auto
    next
      fix x assume "x \<in> set (left_join s FMeaning e)"
      then have "(e, k, r, x) \<in> set g" unfolding sg using krm by simp
      then have "col FMeaning (e, k, r, x) \<in> col FMeaning ` set g" by (rule imageI)
      then show "x \<in> col FMeaning ` set g" by simp
    qed
    with FMeaning show ?thesis by simp
  qed
qed

lemma group_nonempty: "(e, g) \<in> set (groups s ids) \<Longrightarrow> g \<noteq> []"
  using group_col [of e g s ids FKanji] left_join_nonempty [of s FKanji e] by force

lemma group_unique:
  assumes "(e, g) \<in> set (groups s ids)" and "y \<in> set (groups s ids)" and "y \<noteq> (e, g)"
  shows "fst y \<noteq> e"
proof
  assume "fst y = e"
  then have "(e, snd y) \<in> set (groups s ids)" using assms(2) by (metis prod.collapse)
  with assms(1) distinct_groups [of s ids] have "snd y = g"
    by (meson eq_key_imp_eq_value)
  with \<open>fst y = e\<close> assms(3) show False by (metis prod.collapse)
qed

lemma set_map_filter_id: "set (List.map_filter id xs) = {v. Some v \<in> set xs}"
  by (induction xs) (auto simp: List.map_filter_simps split: option.splits)

section \<open>Rank and order key of a group\<close>

lemma case_fn_range: "case_fn qt q row \<in> {1, 2, 3}"
  by (cases qt) (simp_all add: case_fn_def case_single_def case_all_def)

lemma case_fn_1:
  "(case_fn qt q row = 1) = (\<exists>f \<in> set (search_fields qt). col f row = Some q)"
  by (cases qt) (auto simp: case_fn_def case_single_def case_all_def)

lemma case_fn_2:
  "(case_fn qt q row = 2) =
     ((\<forall>f \<in> set (search_fields qt). col f row \<noteq> Some q)
      \<and> (\<exists>f \<in> set (search_fields qt). like_opt (pct q) (col f row)))"
  by (cases qt) (auto simp: case_fn_def case_single_def case_all_def)

lemma Min_of_three:
  fixes S :: "int set"
  assumes "finite S" "S \<noteq> {}" "S \<subseteq> {1, 2, 3}"
  shows "Min S = (if 1 \<in> S then 1 else if 2 \<in> S then 2 else 3)"
proof -
  have "Min S \<in> S" using assms by simp
  moreover have "\<forall>x \<in> S. Min S \<le> x" using assms by simp
  ultimately show ?thesis using assms(3) by (auto split: if_splits) force+
qed

lemma match_type_rank:
  assumes "(e, g) \<in> set (groups s ids)"
  shows "match_type (case_fn qt q) g = rank s qt q e"
proof -
  let ?S = "case_fn qt q ` set g"
  let ?F = "set (search_fields qt)"
  have ne: "g \<noteq> []" using assms by (rule group_nonempty)
  have cols: "col f ` set g = set (left_join s f e)" for f
    by (rule group_col [OF assms])
  have "match_type (case_fn qt q) g = Min ?S"
    using ne by (simp add: match_type_def min_list_Min)
  also have "\<dots> = (if 1 \<in> ?S then 1 else if 2 \<in> ?S then 2 else 3)"
  proof (rule Min_of_three)
    show "finite ?S" by simp
    show "?S \<noteq> {}" using ne by simp
    show "?S \<subseteq> {1, 2, 3}" using case_fn_range [of qt q] by blast
  qed
  finally have m: "match_type (case_fn qt q) g = (if 1 \<in> ?S then 1 else if 2 \<in> ?S then 2 else 3)" .
  have "(1 \<in> ?S) = (\<exists>row \<in> set g. case_fn qt q row = 1)" by force
  also have "\<dots> = (\<exists>f \<in> ?F. \<exists>row \<in> set g. col f row = Some q)"
    unfolding case_fn_1 by blast
  also have "\<dots> = (\<exists>f \<in> ?F. Some q \<in> col f ` set g)" by force
  also have "\<dots> = has_exact s qt q e"
    by (simp add: cols values_left_join has_exact_def list_ex_iff)
  finally have one: "(1 \<in> ?S) = has_exact s qt q e" .
  have two: "(2 \<in> ?S) = has_like s qt q e" if nex: "\<not> has_exact s qt q e"
  proof -
    have no: "col f row \<noteq> Some q" if "f \<in> ?F" "row \<in> set g" for f row
    proof
      assume "col f row = Some q"
      with that(2) have "Some q \<in> col f ` set g" by force
      then have "q \<in> set (values_of s f e)" by (simp add: cols values_left_join)
      with that(1) nex show False by (auto simp: has_exact_def list_ex_iff)
    qed
    have "(2 \<in> ?S) = (\<exists>row \<in> set g. case_fn qt q row = 2)" by force
    also have "\<dots> = (\<exists>f \<in> ?F. \<exists>row \<in> set g. like_opt (pct q) (col f row))"
      unfolding case_fn_2 using no by blast
    also have "\<dots> = (\<exists>f \<in> ?F. \<exists>x \<in> col f ` set g. like_opt (pct q) x)" by blast
    also have "\<dots> = has_like s qt q e"
      by (simp add: cols like_opt_left_join has_like_def list_ex_iff)
    finally show ?thesis .
  qed
  show ?thesis unfolding m rank_def using one two by auto
qed

lemma order_single_least:
  assumes "(e, g) \<in> set (groups s ids)"
  shows "order_single f g = least_value_length s f e"
proof -
  have "set (map (col f) g) = set (left_join s f e)"
    using group_col [OF assms, of f] by simp
  then have eq: "set (List.map_filter id (map (col f) g)) = set (values_of s f e)"
    unfolding set_map_filter_id by (simp add: values_left_join)
  show ?thesis
  proof (cases "values_of s f e")
    case Nil
    with eq have "List.map_filter id (map (col f) g) = []" by simp
    with Nil show ?thesis
      by (simp add: order_single_def length_min_def sql_min_def least_value_length_def)
  next
    case (Cons v vs)
    with eq obtain a as where a: "List.map_filter id (map (col f) g) = a # as"
      by (cases "List.map_filter id (map (col f) g)") auto
    have "min_list (a # as) = Min (set (a # as))" by (rule min_list_Min) simp
    also have "\<dots> = Min (set (v # vs))" using eq a Cons by simp
    finally show ?thesis using a Cons
      by (simp add: order_single_def length_min_def sql_min_def least_value_length_def)
  qed
qed

lemma mem_like_ids:
  "(e \<in> set (like_ids s f pat)) = list_ex (like pat) (values_of s f e)"
proof -
  have "(e \<in> set (like_ids s f pat))
      = (\<exists>row \<in> set (table_of s f). fst (snd row) = e \<and> like pat (snd (snd row)))"
    unfolding like_ids_def by (simp add: image_iff Bex_def)
  also have "\<dots> = list_ex (like pat) (values_of s f e)"
    unfolding values_of_def list_ex_iff by (simp add: image_iff Bex_def) blast
  finally show ?thesis .
qed

lemma mem_primary_ids: "(e \<in> set (primary_ids s qt q)) = has_like s qt q e"
  by (auto simp: primary_ids_def has_like_def mem_like_ids list_ex_iff)

lemma length_primary_groups:
  "length (groups s (primary_ids s qt q)) = card {e \<in> set (entries s). has_like s qt q e}"
  by (simp add: length_groups mem_primary_ids)

lemma has_exact_imp_like: "has_exact s qt q e \<Longrightarrow> has_like s qt q e"
  using like_pct_self [of q] by (auto simp: has_exact_def has_like_def list_ex_iff)

lemma has_like_nocase:
  assumes "0 \<notin> set q" and "37 \<notin> set q" and "95 \<notin> set q"
  shows "has_like s qt q e = contains_nocase s qt q e"
proof -
  have "like (pct q) = (\<lambda>v. sublist (map ascii_lower q) (map ascii_lower (c_string v)))"
    by (rule ext) (rule like_pct_nocase [OF assms])
  then show ?thesis by (simp add: has_like_def contains_nocase_def)
qed

lemma rank_primary:
  assumes "(e, g) \<in> set (groups s (primary_ids s qt q))"
  shows "rank s qt q e = 1 \<or> rank s qt q e = 2"
proof -
  have "has_like s qt q e" using group_rows(2) [OF assms] by (simp add: mem_primary_ids)
  then show ?thesis by (simp add: rank_def)
qed

lemma rank_fallback:
  assumes "groups s (primary_ids s qt q) = []" and "(e, g) \<in> set (groups s ids)"
  shows "rank s qt q e = 3"
proof -
  have "e \<in> set (entries s)" using group_rows(1) [OF assms(2)] .
  moreover have "{e \<in> set (entries s). e \<in> set (primary_ids s qt q)} = {}"
    using set_fst_groups [of s "primary_ids s qt q"] assms(1) by simp
  ultimately have "\<not> has_like s qt q e" by (auto simp: mem_primary_ids)
  then show ?thesis using has_exact_imp_like [of s qt q e] by (auto simp: rank_def)
qed

lemma field_of_search_fields: "field_of qt = Some f \<Longrightarrow> search_fields qt = [f]"
  by (cases qt) auto

lemma group_entry_rows:
  assumes "(e, g) \<in> set (groups s ids)"
  shows "g = entry_rows s e"
proof -
  have e: "e \<in> set ids" using group_rows(2) [OF assms] .
  from assms have "g = filter (\<lambda>row. fst row = e) (filter (\<lambda>row. fst row \<in> set ids) (joined s))"
    by (auto simp: groups_def Let_def)
  also have "\<dots> = filter (\<lambda>row. fst row \<in> set ids \<and> fst row = e) (joined s)"
    by (simp add: conj_commute)
  also have "\<dots> = filter (\<lambda>row. fst row = e) (joined s)"
    using e by (intro filter_cong) auto
  finally show ?thesis by (simp add: entry_rows_def)
qed

lemma order_fn_second_key:
  assumes "(e, g) \<in> set (groups s ids)"
  shows "order_fn s qt q g = second_key s qt q e"
proof -
  have least: "length_min (map (col f) g) = least_value_length s f e" for f
    using order_single_least [OF assms, of f] by (simp add: order_single_def)
  have g: "g = entry_rows s e" using assms by (rule group_entry_rows)
  show ?thesis
  proof (cases "field_of qt")
    case (Some f)
    then show ?thesis by (simp add: order_fn_def second_key_def order_single_def least)
  next
    case None
    then show ?thesis
      by (simp add: order_fn_def second_key_def order_all_def least flip: g)
  qed
qed

section \<open>The rows of a statement\<close>

lemma select_ranked_result_groups:
  "select_ranked s ids cs ord =
     map (\<lambda>eg. columns (fst eg) (snd eg) @ [(''match_type'', SqlInt (match_type cs (snd eg)))])
       (result_groups s ids cs ord)"
  by (simp add: select_ranked_def result_groups_def take_map)

lemma set_result_groups: "set (result_groups s ids cs ord) \<subseteq> set (groups s ids)"
  unfolding result_groups_def using set_take_subset [of 50] by force

lemma length_result_groups: "length (result_groups s ids cs ord) \<le> 50"
  by (simp add: result_groups_def)

lemma result_groups_Nil: "(result_groups s ids cs ord = []) = (groups s ids = [])"
proof -
  have "(sort_key f xs = []) = (xs = [])" for f :: "(int \<times> jrow list) \<Rightarrow> int \<times> nat option" and xs
    by (metis set_empty set_sort)
  then show ?thesis by (simp add: result_groups_def)
qed

lemma result_groups_small:
  "length (groups s ids) \<le> 50 \<Longrightarrow> mset (result_groups s ids cs ord) = mset (groups s ids)"
  by (simp add: result_groups_def)

lemma sorted_result_groups:
  "sorted (map (\<lambda>eg. (match_type cs (snd eg), ord (snd eg))) (result_groups s ids cs ord))"
  unfolding result_groups_def take_map [symmetric] by (rule sorted_wrt_take) simp

lemma remove_match_type_columns:
  "remove_match_type (columns e g @ [(''match_type'', x)]) = columns e g"
  by (simp add: remove_match_type_def columns_def)

lemma select_ranked_stripped:
  "map remove_match_type (select_ranked s ids cs ord) =
     map (\<lambda>eg. columns (fst eg) (snd eg)) (result_groups s ids cs ord)"
  by (simp add: select_ranked_result_groups remove_match_type_columns comp_def)

lemma select_ranked_row:
  assumes "row \<in> set (select_ranked s ids (case_fn qt q) ord)"
  shows "\<exists>e g. (e, g) \<in> set (groups s ids)
           \<and> row = columns e g @ [(''match_type'', SqlInt (rank s qt q e))]"
proof -
  from assms obtain eg where eg: "eg \<in> set (result_groups s ids (case_fn qt q) ord)"
    and row: "row = columns (fst eg) (snd eg) @ [(''match_type'', SqlInt (match_type (case_fn qt q) (snd eg)))]"
    unfolding select_ranked_result_groups by auto
  from eg have mem: "(fst eg, snd eg) \<in> set (groups s ids)"
    using set_result_groups [of s ids] by auto
  show ?thesis using mem row match_type_rank [OF mem, of qt q] by metis
qed




lemma map_of_columns_id: "map_of (columns e g) ''id'' = Some (SqlInt e)"
  by (simp add: columns_def)

lemma map_of_match_type: "map_of (columns e g @ [(''match_type'', x)]) ''match_type'' = Some x"
  by (simp add: columns_def)

lemma group_concat_joined_distinct:
  assumes "(e, g) \<in> set (groups s ids)"
  shows "joined_distinct (values_of s f e) (group_concat_distinct (map (col f) g))"
proof -
  let ?vs = "distinct_first (List.map_filter id (map (col f) g))"
  have "set (map (col f) g) = set (left_join s f e)"
    using group_col [OF assms, of f] by simp
  then have "set (List.map_filter id (map (col f) g)) = set (values_of s f e)"
    unfolding set_map_filter_id by (simp add: values_left_join)
  then have "set ?vs = set (values_of s f e)" by (simp add: distinct_first_def)
  moreover have "distinct ?vs" by (simp add: distinct_first_def)
  moreover have "group_concat_distinct (map (col f) g)
      = (case ?vs of [] \<Rightarrow> SqlNull | v # ws \<Rightarrow> SqlText (join_comma (v # ws)))"
    by (simp add: group_concat_distinct_def)
  ultimately show ?thesis unfolding joined_distinct_def by blast
qed

lemma exec_primary:
  "exec_stmt s (Stmt qt Primary) (primary_params qt q) =
     Inr (select_ranked s (primary_ids s qt q) (case_fn qt q) (order_fn s qt q))"
  by (cases qt)
    (simp_all add: exec_stmt_def exec_single_def exec_all_def primary_params_def primary_ids_def
      case_fn_def order_fn_def)

lemma exec_fallback:
  "exec_stmt s (Stmt qt Fallback) (fallback_params qt q) =
     (case fallback_ids s qt q of
        Inl msg \<Rightarrow> Inl msg
      | Inr ids \<Rightarrow> Inr (select_ranked s ids (case_fn qt q) (order_fn s qt q)))"
  by (cases qt)
    (simp_all add: exec_stmt_def exec_single_def exec_all_def fallback_params_def fallback_ids_def
      case_fn_def order_fn_def split: sum.splits)



section \<open>The route\<close>

lemma is_fallback_simps [simp]:
  "is_fallback (Classify q) = False"
  "is_fallback (Query (Stmt qt Primary) params) = False"
  "is_fallback (Query (Stmt qt Fallback) params) = True"
  by (simp_all add: is_fallback_def)

lemma search_handler_nonempty:
  assumes "query \<noteq> []"
  shows "search_handler db (QString query) =
     (case db (Stmt (detectQueryType query) Primary) (primary_params (detectQueryType query) query) of
        Inl msg \<Rightarrow>
          ((500, ErrorDetails ''Database search error'' msg),
           [Classify query,
            Query (Stmt (detectQueryType query) Primary) (primary_params (detectQueryType query) query)])
      | Inr results \<Rightarrow>
          if results = []
          then (case db (Stmt (detectQueryType query) Fallback)
                       (fallback_params (detectQueryType query) query) of
                  Inl msg \<Rightarrow>
                    ((500, ErrorDetails ''Database search error'' msg),
                     [Classify query,
                      Query (Stmt (detectQueryType query) Primary)
                        (primary_params (detectQueryType query) query),
                      Query (Stmt (detectQueryType query) Fallback)
                        (fallback_params (detectQueryType query) query)])
                | Inr rows \<Rightarrow>
                    ((200, Results (map remove_match_type rows)),
                     [Classify query,
                      Query (Stmt (detectQueryType query) Primary)
                        (primary_params (detectQueryType query) query),
                      Query (Stmt (detectQueryType query) Fallback)
                        (fallback_params (detectQueryType query) query)]))
          else ((200, Results (map remove_match_type results)),
                [Classify query,
                 Query (Stmt (detectQueryType query) Primary)
                   (primary_params (detectQueryType query) query)]))"
  using assms by (simp add: search_handler_def run_search_def split: sum.splits)



lemma run_search_exec:
  "run_search (exec_stmt s) qt q =
     (if groups s (primary_ids s qt q) \<noteq> []
      then (Inr (select_ranked s (primary_ids s qt q) (case_fn qt q) (order_fn s qt q)),
            [Query (Stmt qt Primary) (primary_params qt q)])
      else (case fallback_ids s qt q of
              Inl msg \<Rightarrow> Inl msg
            | Inr ids \<Rightarrow> Inr (select_ranked s ids (case_fn qt q) (order_fn s qt q)),
            [Query (Stmt qt Primary) (primary_params qt q),
             Query (Stmt qt Fallback) (fallback_params qt q)]))"
  by (simp add: run_search_def exec_primary exec_fallback select_ranked_result_groups
      result_groups_Nil)

lemma run_search_rows:
  assumes "run_search (exec_stmt s) qt q = (Inr results, trace)"
  shows "\<exists>ids. results = select_ranked s ids (case_fn qt q) (order_fn s qt q)
           \<and> (ids = primary_ids s qt q
               \<or> groups s (primary_ids s qt q) = [] \<and> fallback_ids s qt q = Inr ids)"
  using assms unfolding run_search_exec by (auto split: if_splits sum.splits)

lemma handler_rows:
  assumes "search_handler (exec_stmt s) q = ((status, Results rows), trace)"
  shows "\<exists>query ids. q = QString query \<and> query \<noteq> [] \<and> status = 200
           \<and> rows = map (\<lambda>eg. columns (fst eg) (snd eg))
                 (result_groups s ids (case_fn (detectQueryType query) query)
                    (order_fn s (detectQueryType query) query))
           \<and> (ids = primary_ids s (detectQueryType query) query
               \<or> groups s (primary_ids s (detectQueryType query) query) = []
                  \<and> fallback_ids s (detectQueryType query) query = Inr ids)"
proof (cases q)
  case QMissing
  with assms show ?thesis by (simp add: search_handler_def)
next
  case (QString query)
  with assms have ne: "query \<noteq> []" by (auto simp: search_handler_def split: if_splits)
  obtain r t where rt: "run_search (exec_stmt s) (detectQueryType query) query = (r, t)"
    by (cases "run_search (exec_stmt s) (detectQueryType query) query")
  with assms QString ne obtain results where r: "r = Inr results"
    and rows: "rows = map remove_match_type results" and st: "status = 200"
    by (cases r) (auto simp: search_handler_def)
  from run_search_rows [OF rt [unfolded r]] obtain ids where
    ids: "results = select_ranked s ids (case_fn (detectQueryType query) query)
             (order_fn s (detectQueryType query) query)"
      "ids = primary_ids s (detectQueryType query) query
         \<or> groups s (primary_ids s (detectQueryType query) query) = []
            \<and> fallback_ids s (detectQueryType query) query = Inr ids"
    by blast
  show ?thesis
    using QString ne st ids(2) unfolding rows ids(1) select_ranked_stripped by blast
qed

lemma field_of_nonempty:
  assumes "field_of (detectQueryType q) = Some f"
  shows "q \<noteq> []"
proof
  assume "q = []"
  then have "detectQueryType q = QAll" by (simp add: detectQueryType_def)
  with assms show False by simp
qed

section \<open>The example stores\<close>

lemmas eval_defs =
  ustr_def search_handler_def detectQueryType_def is_kanji_char_def is_kana_char_def
  is_english_char_def is_js_space_def run_search_def exec_stmt_def exec_single_def exec_all_def
  primary_params_def fallback_params_def pct_def star_def select_ranked_def like_ids_def
  fts_ids_def fts_ids_all_def groups_def joined_def left_join_def values_of_def columns_def
  case_single_def case_all_def order_single_def order_all_def length_min_def sql_min_def
  match_type_def group_concat_distinct_def distinct_first_def List.map_filter_def
  remove_match_type_def ascii_lower_def like_def c_string_def sql_length_def

lemma store_cats_search:
  "search_handler (exec_stmt store_cats) (QString (ustr ''cat'')) =
     ((200, Results
        [[(''id'', SqlInt 2), (''kanji'', SqlNull), (''readings'', SqlNull),
          (''meanings'', SqlText (ustr ''tomcat''))],
         [(''id'', SqlInt 1), (''kanji'', SqlNull), (''readings'', SqlNull),
          (''meanings'', SqlText (ustr ''cats,a cat is nice''))]]),
      [Classify (ustr ''cat''),
       Query (Stmt QEnglish Primary) [ustr ''cat'', ustr ''%cat%'', ustr ''%cat%'']])"
  by (simp add: store_cats_def eval_defs)

lemma store_cats_values:
  "values_of store_cats FMeaning 1 = [ustr ''cats'', ustr ''a cat is nice'']"
  "values_of store_cats FMeaning 2 = [ustr ''tomcat'']"
  by (simp_all add: values_of_def store_cats_def)

lemma store_cats_rank:
  "rank store_cats QEnglish (ustr ''cat'') 2 = 2"
  "rank store_cats QEnglish (ustr ''cat'') 1 = 2"
  by (simp_all add: rank_def has_exact_def has_like_def store_cats_values pct_def ustr_def
      ascii_lower_def like_def c_string_def)


lemma store_eat_search:
  "run_search (exec_stmt store_eat) QEnglish (ustr ''to eat'') =
     (Inr [[(''id'', SqlInt 1), (''kanji'', SqlNull), (''readings'', SqlNull),
            (''meanings'', SqlText (ustr ''eat to live'')), (''match_type'', SqlInt 3)]],
      [Query (Stmt QEnglish Primary) [ustr ''to eat'', ustr ''%to eat%'', ustr ''%to eat%''],
       Query (Stmt QEnglish Fallback) [ustr ''to eat'', ustr ''%to eat%'', ustr ''to eat*'']])"
  by (simp add: store_eat_def eval_defs)

lemma store_sixty_matches:
  "{e \<in> set (entries store_sixty). has_like store_sixty QEnglish (ustr ''cat'') e}
     = int ` {1..<61}"
proof -
  have "has_like store_sixty QEnglish (ustr ''cat'') (int i)" if "i \<in> {1..<61}" for i
  proof -
    have "(int i, int i, ustr ''cat'') \<in> set (meanings store_sixty)"
      using that by (simp add: store_sixty_def image_iff)
    then have "ustr ''cat'' \<in> set (values_of store_sixty FMeaning (int i))"
      by (force simp: values_of_def)
    then show ?thesis
      using like_pct_self [of "ustr ''cat''"] by (auto simp: has_like_def list_ex_iff)
  qed
  moreover have "set (entries store_sixty) = int ` {1..<61}"
    by (simp add: store_sixty_def)
  ultimately show ?thesis by auto
qed

lemma store_sixty_card:
  "card {e \<in> set (entries store_sixty). has_like store_sixty QEnglish (ustr ''cat'') e} = 60"
  unfolding store_sixty_matches by (simp add: card_image)

lemma store_taberu_search:
  "search_handler (exec_stmt store_taberu) (QString [0x98DF, 0x3079, 0x308B]) =
     ((200, Results
        [[(''id'', SqlInt 1), (''kanji'', SqlText [0x98DF, 0x3079, 0x308B]),
          (''readings'', SqlText [0x305F, 0x3079, 0x308B, 44, 0x30BF, 0x30D9, 0x30EB]),
          (''meanings'', SqlText (ustr ''to eat,to live on''))]]),
      [Classify [0x98DF, 0x3079, 0x308B],
       Query (Stmt QKanji Primary)
         [[0x98DF, 0x3079, 0x308B], [37, 0x98DF, 0x3079, 0x308B, 37],
          [37, 0x98DF, 0x3079, 0x308B, 37]]])"
  by (simp add: store_taberu_def eval_defs)

lemma length_joined_taberu: "length (joined store_taberu) = 4"
  by (simp add: store_taberu_def joined_def left_join_def values_of_def)

lemma store_japan_primary:
  "exec_stmt store_japan (Stmt QEnglish Primary) (primary_params QEnglish (ustr ''japan'')) =
     Inr [[(''id'', SqlInt 1), (''kanji'', SqlNull), (''readings'', SqlNull),
           (''meanings'', SqlText (ustr ''Japan'')), (''match_type'', SqlInt 2)]]"
  by (simp add: store_japan_def eval_defs)

section \<open>Order of the result list\<close>

lemma sorted_fst_of_pairs:
  fixes a :: "'a \<Rightarrow> int" and b :: "'a \<Rightarrow> nat option"
  shows "sorted (map (\<lambda>x. (a x, b x)) xs) \<Longrightarrow> sorted (map a xs)"
  by (induction xs) (auto simp: less_eq_prod_def)

text \<open>
  C1, as the code has it: the ids of the returned rows are in non-decreasing order of rank
  (1 for an entry with a value equal to the query, 2 for one with a value matching the
  \<^verbatim>\<open>LIKE\<close> pattern, 3 otherwise), and entries of equal rank are in non-decreasing
  order of the second term of \<^verbatim>\<open>ORDER BY\<close>, \<^verbatim>\<open>NULL\<close> first. In the kanji,
  kana and English categories that term is \<^verbatim>\<open>LENGTH(MIN(x))\<close>, the length of the
  entry's least value of the searched field in the binary collation, whether that value
  matches or not. In the mixed category it is \<^verbatim>\<open>LENGTH(MIN(kanji))\<close> when the kanji
  form of the row picked for the group matches, else \<^verbatim>\<open>LENGTH(MIN(reading))\<close> when
  its reading matches, else \<^verbatim>\<open>LENGTH(MIN(meaning))\<close>.
\<close>

theorem results_sorted_by_rank_then_least_length:
  assumes "search_handler (exec_stmt s) (QString query) = ((status, Results rows), trace)"
  shows "\<exists>ids. map (\<lambda>row. map_of row ''id'') rows = map (\<lambda>e. Some (SqlInt e)) ids
           \<and> sorted (map (rank s (detectQueryType query) query) ids)
           \<and> sorted (map (\<lambda>e. (rank s (detectQueryType query) query e,
                              second_key s (detectQueryType query) query e)) ids)"
proof -
  let ?qt = "detectQueryType query"
  from handler_rows [OF assms] obtain ids0 where
    rows: "rows = map (\<lambda>eg. columns (fst eg) (snd eg))
       (result_groups s ids0 (case_fn ?qt query) (order_fn s ?qt query))"
    by auto
  let ?L = "result_groups s ids0 (case_fn ?qt query) (order_fn s ?qt query)"
  have mem: "(fst eg, snd eg) \<in> set (groups s ids0)" if "eg \<in> set ?L" for eg
    using that set_result_groups [of s ids0] by auto
  have srt: "sorted (map (\<lambda>eg. (match_type (case_fn ?qt query) (snd eg),
                order_fn s ?qt query (snd eg))) ?L)"
    by (rule sorted_result_groups)
  have ids: "map (\<lambda>row. map_of row ''id'') rows = map (\<lambda>e. Some (SqlInt e)) (map fst ?L)"
    unfolding rows by (simp add: map_of_columns_id comp_def)
  have mt: "match_type (case_fn ?qt query) (snd eg) = rank s ?qt query (fst eg)"
    if "eg \<in> set ?L" for eg
    using match_type_rank [OF mem [OF that]] .
  have sk: "order_fn s ?qt query (snd eg) = second_key s ?qt query (fst eg)"
    if "eg \<in> set ?L" for eg
    using order_fn_second_key [OF mem [OF that]] .
  have "map (\<lambda>eg. match_type (case_fn ?qt query) (snd eg)) ?L = map (rank s ?qt query) (map fst ?L)"
    using mt by simp
  with sorted_fst_of_pairs [OF srt]
  have r: "sorted (map (rank s ?qt query) (map fst ?L))" by simp
  have "map (\<lambda>eg. (match_type (case_fn ?qt query) (snd eg), order_fn s ?qt query (snd eg))) ?L
      = map (\<lambda>e. (rank s ?qt query e, second_key s ?qt query e)) (map fst ?L)"
    using mt sk by simp
  with srt have k: "sorted (map (\<lambda>e. (rank s ?qt query e, second_key s ?qt query e)) (map fst ?L))"
    by simp
  from ids r k show ?thesis by blast
qed

lemma store_mixed_search:
  "search_handler (exec_stmt store_mixed) (QString (ustr ''1'')) =
     ((200, Results
        [[(''id'', SqlInt 2), (''kanji'', SqlNull), (''readings'', SqlText (ustr ''a1'')),
          (''meanings'', SqlNull)],
         [(''id'', SqlInt 1), (''kanji'', SqlText (ustr ''100'')), (''readings'', SqlNull),
          (''meanings'', SqlNull)]]),
      [Classify (ustr ''1''), Query (Stmt QAll Primary) (primary_params QAll (ustr ''1''))])"
  by (simp add: store_mixed_def eval_defs)

lemma store_mixed_values:
  "values_of store_mixed FKanji 1 = [ustr ''100'']"
  "values_of store_mixed FReading 1 = []"
  "values_of store_mixed FMeaning 1 = []"
  "values_of store_mixed FKanji 2 = []"
  "values_of store_mixed FReading 2 = [ustr ''a1'']"
  "values_of store_mixed FMeaning 2 = []"
  by (simp_all add: values_of_def store_mixed_def)

lemma store_mixed_rows:
  "entry_rows store_mixed 1 = [(1, Some (ustr ''100''), None, None)]"
  "entry_rows store_mixed 2 = [(2, None, Some (ustr ''a1''), None)]"
  by (simp_all add: entry_rows_def joined_def left_join_def values_of_def store_mixed_def)

lemma store_mixed_keys:
  "second_key store_mixed QAll (ustr ''1'') 2 = Some 2"
  "second_key store_mixed QAll (ustr ''1'') 1 = Some 3"
  "rank store_mixed QAll (ustr ''1'') 2 = 2"
  "rank store_mixed QAll (ustr ''1'') 1 = 2"
  by (simp_all add: second_key_def store_mixed_rows least_value_length_def rank_def has_exact_def
      has_like_def store_mixed_values)
    (simp_all add: store_mixed_def pct_def ustr_def ascii_lower_def like_def c_string_def
      sql_length_def)

theorem results_sorted_by_rank_then_least_length_witness:
  "search_handler (exec_stmt store_cats) (QString (ustr ''cat'')) =
     ((200, Results
        [[(''id'', SqlInt 2), (''kanji'', SqlNull), (''readings'', SqlNull),
          (''meanings'', SqlText (ustr ''tomcat''))],
         [(''id'', SqlInt 1), (''kanji'', SqlNull), (''readings'', SqlNull),
          (''meanings'', SqlText (ustr ''cats,a cat is nice''))]]),
      [Classify (ustr ''cat''),
       Query (Stmt QEnglish Primary) [ustr ''cat'', ustr ''%cat%'', ustr ''%cat%'']])
   \<and> sorted (map (\<lambda>e. (rank store_cats QEnglish (ustr ''cat'') e,
                       second_key store_cats QEnglish (ustr ''cat'') e)) [2, 1])
   \<and> second_key store_cats QEnglish (ustr ''cat'') 2 = Some 6
   \<and> second_key store_cats QEnglish (ustr ''cat'') 1 = Some 13
   \<and> search_handler (exec_stmt store_mixed) (QString (ustr ''1'')) =
     ((200, Results
        [[(''id'', SqlInt 2), (''kanji'', SqlNull), (''readings'', SqlText (ustr ''a1'')),
          (''meanings'', SqlNull)],
         [(''id'', SqlInt 1), (''kanji'', SqlText (ustr ''100'')), (''readings'', SqlNull),
          (''meanings'', SqlNull)]]),
      [Classify (ustr ''1''), Query (Stmt QAll Primary) (primary_params QAll (ustr ''1''))])
   \<and> sorted (map (\<lambda>e. (rank store_mixed QAll (ustr ''1'') e,
                       second_key store_mixed QAll (ustr ''1'') e)) [2, 1])
   \<and> second_key store_mixed QAll (ustr ''1'') 2 = Some 2
   \<and> second_key store_mixed QAll (ustr ''1'') 1 = Some 3"
proof -
  from results_sorted_by_rank_then_least_length [OF store_cats_search]
  obtain ids where ids: "map (\<lambda>row. map_of row ''id'')
        [[(''id'', SqlInt 2), (''kanji'', SqlNull), (''readings'', SqlNull),
          (''meanings'', SqlText (ustr ''tomcat''))],
         [(''id'', SqlInt 1), (''kanji'', SqlNull), (''readings'', SqlNull),
          (''meanings'', SqlText (ustr ''cats,a cat is nice''))]] = map (\<lambda>e. Some (SqlInt e)) ids"
    and srt: "sorted (map (\<lambda>e. (rank store_cats (detectQueryType (ustr ''cat'')) (ustr ''cat'') e,
                 second_key store_cats (detectQueryType (ustr ''cat'')) (ustr ''cat'') e)) ids)"
    by blast
  have qt: "detectQueryType (ustr ''cat'') = QEnglish" by (simp add: eval_defs)
  from ids have "ids = [2, 1]" by (auto simp: map_eq_Cons_conv)
  with srt qt have cats: "sorted (map (\<lambda>e. (rank store_cats QEnglish (ustr ''cat'') e,
                       second_key store_cats QEnglish (ustr ''cat'') e)) [2, 1])" by simp
  have cats_keys: "second_key store_cats QEnglish (ustr ''cat'') 2 = Some 6"
    "second_key store_cats QEnglish (ustr ''cat'') 1 = Some 13"
    by (simp_all add: second_key_def least_value_length_def store_cats_values ustr_def
        sql_length_def c_string_def)
  from results_sorted_by_rank_then_least_length [OF store_mixed_search]
  obtain ids' where ids': "map (\<lambda>row. map_of row ''id'')
        [[(''id'', SqlInt 2), (''kanji'', SqlNull), (''readings'', SqlText (ustr ''a1'')),
          (''meanings'', SqlNull)],
         [(''id'', SqlInt 1), (''kanji'', SqlText (ustr ''100'')), (''readings'', SqlNull),
          (''meanings'', SqlNull)]] = map (\<lambda>e. Some (SqlInt e)) ids'"
    and srt': "sorted (map (\<lambda>e. (rank store_mixed (detectQueryType (ustr ''1'')) (ustr ''1'') e,
                 second_key store_mixed (detectQueryType (ustr ''1'')) (ustr ''1'') e)) ids')"
    by blast
  have qt': "detectQueryType (ustr ''1'') = QAll" by (simp add: eval_defs)
  from ids' have "ids' = [2, 1]" by (auto simp: map_eq_Cons_conv)
  with srt' qt' have mixed: "sorted (map (\<lambda>e. (rank store_mixed QAll (ustr ''1'') e,
                       second_key store_mixed QAll (ustr ''1'') e)) [2, 1])" by simp
  show ?thesis
    using store_cats_search cats cats_keys store_mixed_search mixed store_mixed_keys(1,2)
    by (intro conjI)
qed

text \<open>
  C1 as stated fails: for the query \<^verbatim>\<open>cat\<close>, entry 2 (\<^verbatim>\<open>tomcat\<close>, its
  shortest matching meaning has length 6) is returned before entry 1 (meanings
  \<^verbatim>\<open>cats\<close> and \<^verbatim>\<open>a cat is nice\<close>, shortest matching length 4), both of
  rank 2: the code compares the lengths of the least values, 6 and 13.
\<close>

theorem shortest_match_order_counterexample:
  "detectQueryType (ustr ''cat'') = QEnglish
   \<and> map (\<lambda>row. map_of row ''id'')
        (case fst (search_handler (exec_stmt store_cats) (QString (ustr ''cat''))) of
           (status, Results rows) \<Rightarrow> rows | _ \<Rightarrow> [])
      = [Some (SqlInt 2), Some (SqlInt 1)]
   \<and> rank store_cats QEnglish (ustr ''cat'') 2 = 2
   \<and> rank store_cats QEnglish (ustr ''cat'') 1 = 2
   \<and> shortest_match_length store_cats FMeaning (ustr ''cat'') 2 = 6
   \<and> shortest_match_length store_cats FMeaning (ustr ''cat'') 1 = 4"
  unfolding store_cats_search store_cats_rank
  by (simp add: shortest_match_length_def store_cats_values detectQueryType_def is_kanji_char_def
      is_kana_char_def is_english_char_def pct_def ustr_def ascii_lower_def like_def c_string_def)

section \<open>The full-text pass\<close>

text \<open>
  C2: for a query that is not empty, the trace of the route holds a full-text statement if
  and only if the primary statement returned no row. When the primary statement returns
  rows, they are the response and no full-text statement runs; when it returns none,
  exactly one full-text statement runs, its \<^verbatim>\<open>MATCH\<close> value is the query followed by
  \<^verbatim>\<open>*\<close> on every store, and the rows it returns are the response.
\<close>

theorem fallback_iff_primary_empty:
  assumes "query \<noteq> []" and "qt = detectQueryType query"
  shows "((\<exists>ev \<in> set (snd (search_handler db (QString query))). is_fallback ev)
            = (db (Stmt qt Primary) (primary_params qt query) = Inr []))
         \<and> (\<forall>results. db (Stmt qt Primary) (primary_params qt query) = Inr results
                \<and> results \<noteq> [] \<longrightarrow>
              search_handler db (QString query) =
                ((200, Results (map remove_match_type results)),
                 [Classify query, Query (Stmt qt Primary) (primary_params qt query)]))
         \<and> (db (Stmt qt Primary) (primary_params qt query) = Inr [] \<longrightarrow>
              filter is_fallback (snd (search_handler db (QString query)))
                = [Query (Stmt qt Fallback) (fallback_params qt query)]
              \<and> (\<forall>rows. db (Stmt qt Fallback) (fallback_params qt query) = Inr rows \<longrightarrow>
                    fst (search_handler db (QString query))
                      = (200, Results (map remove_match_type rows))))
         \<and> (\<forall>s. exec_stmt s (Stmt qt Fallback) (fallback_params qt query) =
                (case (case field_of qt of
                         Some f \<Rightarrow> fts_ids s f (query @ [42])
                       | None \<Rightarrow> fts_ids_all s (query @ [42]) (query @ [42]) (query @ [42])) of
                   Inl msg \<Rightarrow> Inl msg
                 | Inr ids \<Rightarrow> Inr (select_ranked s ids (case_fn qt query) (order_fn s qt query))))"
proof (intro conjI allI impI)
  show "(\<exists>ev \<in> set (snd (search_handler db (QString query))). is_fallback ev)
          = (db (Stmt qt Primary) (primary_params qt query) = Inr [])"
    unfolding search_handler_nonempty [OF assms(1)] assms(2)
    by (auto split: sum.splits)
next
  fix results
  assume "db (Stmt qt Primary) (primary_params qt query) = Inr results \<and> results \<noteq> []"
  then show "search_handler db (QString query) =
      ((200, Results (map remove_match_type results)),
       [Classify query, Query (Stmt qt Primary) (primary_params qt query)])"
    unfolding search_handler_nonempty [OF assms(1)] assms(2) by simp
next
  assume "db (Stmt qt Primary) (primary_params qt query) = Inr []"
  then show "filter is_fallback (snd (search_handler db (QString query)))
      = [Query (Stmt qt Fallback) (fallback_params qt query)]"
    unfolding search_handler_nonempty [OF assms(1)] assms(2) by (simp split: sum.splits)
next
  fix rows
  assume "db (Stmt qt Primary) (primary_params qt query) = Inr []"
    and "db (Stmt qt Fallback) (fallback_params qt query) = Inr rows"
  then show "fst (search_handler db (QString query)) = (200, Results (map remove_match_type rows))"
    unfolding search_handler_nonempty [OF assms(1)] assms(2) by simp
next
  fix s
  show "exec_stmt s (Stmt qt Fallback) (fallback_params qt query) =
      (case (case field_of qt of
               Some f \<Rightarrow> fts_ids s f (query @ [42])
             | None \<Rightarrow> fts_ids_all s (query @ [42]) (query @ [42]) (query @ [42])) of
         Inl msg \<Rightarrow> Inl msg
       | Inr ids \<Rightarrow> Inr (select_ranked s ids (case_fn qt query) (order_fn s qt query)))"
    unfolding exec_fallback fallback_ids_def star_def ..
qed

theorem fallback_iff_primary_empty_witness:
  "ustr ''to eat'' \<noteq> [] \<and> QEnglish = detectQueryType (ustr ''to eat'')
   \<and> exec_stmt store_eat (Stmt QEnglish Primary) (primary_params QEnglish (ustr ''to eat'')) = Inr []
   \<and> filter is_fallback (snd (search_handler (exec_stmt store_eat) (QString (ustr ''to eat''))))
        = [Query (Stmt QEnglish Fallback) [ustr ''to eat'', ustr ''%to eat%'', ustr ''to eat*'']]
   \<and> fst (search_handler (exec_stmt store_eat) (QString (ustr ''to eat'')))
        = (200, Results [[(''id'', SqlInt 1), (''kanji'', SqlNull), (''readings'', SqlNull),
                          (''meanings'', SqlText (ustr ''eat to live''))]])
   \<and> search_handler (exec_stmt store_cats) (QString (ustr ''cat'')) =
       ((200, Results
          [[(''id'', SqlInt 2), (''kanji'', SqlNull), (''readings'', SqlNull),
            (''meanings'', SqlText (ustr ''tomcat''))],
           [(''id'', SqlInt 1), (''kanji'', SqlNull), (''readings'', SqlNull),
            (''meanings'', SqlText (ustr ''cats,a cat is nice''))]]),
        [Classify (ustr ''cat''),
         Query (Stmt QEnglish Primary) [ustr ''cat'', ustr ''%cat%'', ustr ''%cat%'']])"
proof -
  have ne: "ustr ''to eat'' \<noteq> []" by (simp add: ustr_def)
  have qt: "QEnglish = detectQueryType (ustr ''to eat'')"
    by (simp add: detectQueryType_def is_kanji_char_def is_kana_char_def is_english_char_def
        is_js_space_def ustr_def)
  have p: "exec_stmt store_eat (Stmt QEnglish Primary) (primary_params QEnglish (ustr ''to eat''))
      = Inr []"
    by (simp add: store_eat_def eval_defs)
  have f: "exec_stmt store_eat (Stmt QEnglish Fallback) (fallback_params QEnglish (ustr ''to eat''))
      = Inr [[(''id'', SqlInt 1), (''kanji'', SqlNull), (''readings'', SqlNull),
              (''meanings'', SqlText (ustr ''eat to live'')), (''match_type'', SqlInt 3)]]"
    by (simp add: store_eat_def eval_defs)
  have fp: "fallback_params QEnglish (ustr ''to eat'')
      = [ustr ''to eat'', ustr ''%to eat%'', ustr ''to eat*'']"
    by (simp add: fallback_params_def pct_def star_def ustr_def)
  from fallback_iff_primary_empty [OF ne qt, of "exec_stmt store_eat"] p f
  have "filter is_fallback (snd (search_handler (exec_stmt store_eat) (QString (ustr ''to eat''))))
        = [Query (Stmt QEnglish Fallback) (fallback_params QEnglish (ustr ''to eat''))]"
    and "fst (search_handler (exec_stmt store_eat) (QString (ustr ''to eat'')))
        = (200, Results (map remove_match_type
             [[(''id'', SqlInt 1), (''kanji'', SqlNull), (''readings'', SqlNull),
               (''meanings'', SqlText (ustr ''eat to live'')), (''match_type'', SqlInt 3)]]))"
    by blast+
  then show ?thesis using ne qt p store_cats_search
    by (simp add: fp remove_match_type_def)
qed

section \<open>Size of the result list\<close>

text \<open>
  C3: whatever the query, the category and the pass, the list of rows that the route
  returns has at most 50 entries.
\<close>

theorem result_list_at_most_50:
  assumes "search_handler (exec_stmt s) q = ((status, Results rows), trace)"
  shows "length rows \<le> 50"
proof -
  from handler_rows [OF assms] obtain query ids where
    "rows = map (\<lambda>eg. columns (fst eg) (snd eg))
       (result_groups s ids (case_fn (detectQueryType query) query)
          (order_fn s (detectQueryType query) query))"
    by blast
  then show ?thesis by (simp add: length_result_groups)
qed

text \<open>Sixty entries match the query \<^verbatim>\<open>cat\<close>; the route returns at most 50 rows.\<close>

theorem result_list_at_most_50_witness:
  "\<exists>rows trace.
     search_handler (exec_stmt store_sixty) (QString (ustr ''cat'')) = ((200, Results rows), trace)
     \<and> length rows \<le> 50
     \<and> card {e \<in> set (entries store_sixty). has_like store_sixty QEnglish (ustr ''cat'') e} = 60"
proof -
  have ne: "ustr ''cat'' \<noteq> []" by (simp add: ustr_def)
  have qt: "detectQueryType (ustr ''cat'') = QEnglish"
    by (simp add: detectQueryType_def is_kanji_char_def is_kana_char_def is_english_char_def ustr_def)
  have "length (groups store_sixty (primary_ids store_sixty QEnglish (ustr ''cat''))) = 60"
    by (simp add: length_primary_groups store_sixty_card)
  then have "groups store_sixty (primary_ids store_sixty QEnglish (ustr ''cat'')) \<noteq> []" by auto
  then have "select_ranked store_sixty (primary_ids store_sixty QEnglish (ustr ''cat''))
      (case_fn QEnglish (ustr ''cat'')) (order_fn store_sixty QEnglish (ustr ''cat'')) \<noteq> []"
    by (simp add: select_ranked_result_groups result_groups_Nil)
  then obtain rows trace where
    h: "search_handler (exec_stmt store_sixty) (QString (ustr ''cat'')) = ((200, Results rows), trace)"
    unfolding search_handler_nonempty [OF ne] qt exec_primary by simp
  from result_list_at_most_50 [OF h] h store_sixty_card show ?thesis by blast
qed

section \<open>Searching for a stored value\<close>

lemma sorted_hd_least:
  fixes k :: "'a \<Rightarrow> 'b::linorder"
  assumes "sorted (map k xs)" and "x \<in> set xs" and "\<forall>y \<in> set xs. y \<noteq> x \<longrightarrow> k x < k y"
  shows "hd xs = x"
proof (cases xs)
  case Nil
  with assms(2) show ?thesis by simp
next
  case (Cons a as)
  show ?thesis
  proof (rule ccontr)
    assume "hd xs \<noteq> x"
    with Cons have ax: "a \<noteq> x" by simp
    with assms(2) Cons have "x \<in> set as" by simp
    with assms(1) Cons have "k a \<le> k x" by simp
    moreover from assms(3) ax Cons have "k x < k a" by simp
    ultimately show False by simp
  qed
qed

lemma sorted_take_mem:
  fixes k :: "'a \<Rightarrow> 'b::linorder"
  assumes "sorted (map k xs)" and "distinct xs" and "x \<in> set xs"
    and "card {y \<in> set xs. k y \<le> k x} \<le> n"
  shows "x \<in> set (take n xs)"
proof -
  from assms(3) obtain i where i: "i < length xs" "xs ! i = x"
    by (auto simp: in_set_conv_nth)
  have "i < n"
  proof (rule ccontr)
    assume "\<not> i < n"
    then have n: "n \<le> i" by simp
    have "set (take (Suc i) xs) \<subseteq> {y \<in> set xs. k y \<le> k x}"
    proof
      fix y
      assume y: "y \<in> set (take (Suc i) xs)"
      then obtain j where j: "j < Suc i" "j < length xs" "xs ! j = y"
        by (auto simp: in_set_conv_nth)
      have "map k xs ! j \<le> map k xs ! i"
        using assms(1) j(1) i(1) by (intro sorted_nth_mono) auto
      then have "k y \<le> k x" using i j by simp
      moreover have "y \<in> set xs" using y by (rule in_set_takeD)
      ultimately show "y \<in> {y \<in> set xs. k y \<le> k x}" by simp
    qed
    then have "card (set (take (Suc i) xs)) \<le> card {y \<in> set xs. k y \<le> k x}"
      by (intro card_mono) auto
    moreover have "card (set (take (Suc i) xs)) = Suc i"
      using assms(2) i(1) by (simp add: distinct_card)
    ultimately show False using assms(4) n by simp
  qed
  then have "take n xs ! i = x" "i < length (take n xs)" using i by simp_all
  then show ?thesis by (metis nth_mem)
qed

lemma mem_values_of:
  "(v \<in> set (values_of s f e)) = (\<exists>rid. (rid, e, v) \<in> set (table_of s f))"
  unfolding values_of_def by (simp add: image_iff Bex_def)

text \<open>
  C4, as the code has it: when the query equals a stored kanji form (reading, meaning) of
  an entry of the table of entries and is classified into the matching category, the
  primary pass answers (no full-text statement runs) and the owning entry has rank 1. It
  is in the result list when at most 50 entries own a value equal to the query, however
  many entries have a value that only matches, and it is the first of the list when no other
  entry owns a value equal to the query.
\<close>

theorem exact_value_ranked_first:
  assumes "detectQueryType q = qt" and "field_of qt = Some f"
    and "q \<in> set (values_of s f e)" and "e \<in> set (entries s)"
  shows "\<exists>rows.
           search_handler (exec_stmt s) (QString q) =
             ((200, Results rows), [Classify q, Query (Stmt qt Primary) (primary_params qt q)])
           \<and> rank s qt q e = 1
           \<and> (card {e' \<in> set (entries s). q \<in> set (values_of s f e')} \<le> 50 \<longrightarrow>
                Some (SqlInt e) \<in> set (map (\<lambda>row. map_of row ''id'') rows))
           \<and> ((\<forall>e' \<in> set (entries s). e' \<noteq> e \<longrightarrow> q \<notin> set (values_of s f e')) \<longrightarrow>
                map_of (hd rows) ''id'' = Some (SqlInt e))"
proof -
  let ?G = "groups s (primary_ids s qt q)"
  let ?key = "\<lambda>eg. (match_type (case_fn qt q) (snd eg), order_fn s qt q (snd eg))"
  let ?L = "result_groups s (primary_ids s qt q) (case_fn qt q) (order_fn s qt q)"
  let ?rows = "map (\<lambda>eg. columns (fst eg) (snd eg)) ?L"
  have ne: "q \<noteq> []" using assms(1,2) field_of_nonempty by blast
  have sf: "search_fields qt = [f]" using assms(2) by (rule field_of_search_fields)
  have ex: "has_exact s qt q e" using assms(3) by (simp add: has_exact_def sf)
  then have r1: "rank s qt q e = 1" by (simp add: rank_def)
  have "has_like s qt q e" using ex by (rule has_exact_imp_like)
  with assms(4) have "e \<in> fst ` set ?G" by (simp add: set_fst_groups mem_primary_ids)
  then obtain g where eg: "(e, g) \<in> set ?G" by force
  then have Gne: "?G \<noteq> []" by auto
  then have Lne: "?L \<noteq> []" by (simp add: result_groups_Nil)
  have k_e: "?key (e, g) = (1, order_fn s qt q g)"
    using match_type_rank [OF eg, of qt q] r1 by simp
  have resp: "search_handler (exec_stmt s) (QString q) =
      ((200, Results ?rows), [Classify q, Query (Stmt qt Primary) (primary_params qt q)])"
  proof -
    have "select_ranked s (primary_ids s qt q) (case_fn qt q) (order_fn s qt q) \<noteq> []"
      using Lne by (simp add: select_ranked_result_groups)
    then show ?thesis
      unfolding search_handler_nonempty [OF ne] assms(1) exec_primary
      by (simp add: select_ranked_stripped)
  qed
  have appears: "Some (SqlInt e) \<in> set (map (\<lambda>row. map_of row ''id'') ?rows)"
    if few: "card {e' \<in> set (entries s). q \<in> set (values_of s f e')} \<le> 50"
  proof -
    let ?xs = "sort_key ?key ?G"
    let ?A = "{y \<in> set ?xs. ?key y \<le> ?key (e, g)}"
    let ?O = "{e' \<in> set (entries s). q \<in> set (values_of s f e')}"
    have dist: "distinct ?G" and inj: "inj_on fst (set ?G)"
      using distinct_groups [of s "primary_ids s qt q"] by (simp_all add: distinct_map)
    have sub: "fst ` ?A \<subseteq> ?O"
    proof
      fix e'
      assume "e' \<in> fst ` ?A"
      then obtain y where y: "y \<in> set ?G" "?key y \<le> ?key (e, g)" "e' = fst y" by auto
      have mem: "(fst y, snd y) \<in> set ?G" using y(1) by simp
      have "match_type (case_fn qt q) (snd y) \<le> 1"
        using y(2) unfolding k_e by (auto simp: less_eq_prod_def)
      then have "rank s qt q (fst y) \<le> 1" using match_type_rank [OF mem, of qt q] by simp
      then have "has_exact s qt q (fst y)" by (simp add: rank_def split: if_splits)
      then show "e' \<in> ?O" using group_rows(1) [OF mem] y(3) by (simp add: has_exact_def sf)
    qed
    have "inj_on fst ?A" by (rule inj_on_subset [OF inj]) auto
    then have "card ?A = card (fst ` ?A)" by (simp add: card_image)
    also have "\<dots> \<le> card ?O" using sub by (intro card_mono) auto
    finally have cA: "card ?A \<le> 50" using few by simp
    have "(e, g) \<in> set (take 50 ?xs)"
    proof (rule sorted_take_mem [where k = ?key])
      show "sorted (map ?key ?xs)" by simp
      show "distinct ?xs" using dist by simp
      show "(e, g) \<in> set ?xs" using eg by simp
      show "card ?A \<le> 50" by (rule cA)
    qed
    then have "(e, g) \<in> set ?L" by (simp add: result_groups_def)
    then have "map_of (columns (fst (e, g)) (snd (e, g))) ''id''
        \<in> (\<lambda>eg. map_of (columns (fst eg) (snd eg)) ''id'') ` set ?L"
      by (rule imageI)
    then show ?thesis by (simp add: map_of_columns_id comp_def)
  qed
  have first: "map_of (hd ?rows) ''id'' = Some (SqlInt e)"
    if only: "\<forall>e' \<in> set (entries s). e' \<noteq> e \<longrightarrow> q \<notin> set (values_of s f e')"
  proof -
    have less: "?key (e, g) < ?key y" if y: "y \<in> set ?G" "y \<noteq> (e, g)" for y
    proof -
      have "fst y \<noteq> e" using group_unique [OF eg y] .
      moreover have mem: "(fst y, snd y) \<in> set ?G" using y(1) by simp
      then have "fst y \<in> set (entries s)" by (rule group_rows(1))
      ultimately have "\<not> has_exact s qt q (fst y)"
        using only by (simp add: has_exact_def sf)
      then have "rank s qt q (fst y) \<noteq> 1" by (simp add: rank_def)
      moreover have "rank s qt q (fst y) = 1 \<or> rank s qt q (fst y) = 2"
        using rank_primary [OF mem] .
      ultimately have "match_type (case_fn qt q) (snd y) = 2"
        using match_type_rank [OF mem, of qt q] by simp
      then show ?thesis unfolding k_e by simp
    qed
    have "hd (sort_key ?key ?G) = (e, g)"
    proof (rule sorted_hd_least [where k = ?key])
      show "sorted (map ?key (sort_key ?key ?G))" by simp
      show "(e, g) \<in> set (sort_key ?key ?G)" using eg by simp
      show "\<forall>y \<in> set (sort_key ?key ?G). y \<noteq> (e, g) \<longrightarrow> ?key (e, g) < ?key y"
        using less by simp
    qed
    then have "hd ?L = (e, g)" by (simp add: result_groups_def)
    then have "hd ?rows = columns e g" using Lne by (simp add: hd_map)
    then show ?thesis by (simp add: map_of_columns_id)
  qed
  from resp r1 appears first show ?thesis by blast
qed

lemma store_many_owners:
  "{e' \<in> set (entries store_many). [0x65E5] \<in> set (values_of store_many FKanji e')} = {61}"
  unfolding mem_values_of by (auto simp: store_many_def)

lemma store_many_matches:
  "{e' \<in> set (entries store_many). has_like store_many QKanji [0x65E5] e'}
     = insert 61 (int ` {1..<61})"
proof -
  have l1: "like (pct [0x65E5]) [0x65E5, 0x672C]" and l2: "like (pct [0x65E5]) [0x65E5]"
    by (simp_all add: like_def c_string_def pct_def ascii_lower_def)
  have "has_like store_many QKanji [0x65E5] (int i)" if "i \<in> {1..<61}" for i
  proof -
    have "(int i, int i, [0x65E5, 0x672C]) \<in> set (table_of store_many FKanji)"
      using that by (simp add: store_many_def image_iff)
    then have "[0x65E5, 0x672C] \<in> set (values_of store_many FKanji (int i))"
      unfolding mem_values_of by blast
    with l1 show ?thesis by (auto simp: has_like_def list_ex_iff)
  qed
  moreover have "has_like store_many QKanji [0x65E5] 61"
  proof -
    have "(61, 61, [0x65E5]) \<in> set (table_of store_many FKanji)"
      by (simp add: store_many_def)
    then have "[0x65E5] \<in> set (values_of store_many FKanji 61)"
      unfolding mem_values_of by blast
    with l2 show ?thesis by (auto simp: has_like_def list_ex_iff)
  qed
  moreover have "set (entries store_many) = insert 61 (int ` {1..<61})"
    by (simp add: store_many_def)
  ultimately show ?thesis by auto
qed

text \<open>In \<open>store_many\<close> 61 entries match the query U+65E5 and one owns it; it is in the
  list, and first.\<close>

theorem exact_value_ranked_first_witness:
  "detectQueryType [0x65E5] = QKanji \<and> field_of QKanji = Some FKanji
   \<and> [0x65E5] \<in> set (values_of store_many FKanji 61) \<and> 61 \<in> set (entries store_many)
   \<and> card {e' \<in> set (entries store_many). has_like store_many QKanji [0x65E5] e'} = 61
   \<and> card {e' \<in> set (entries store_many). [0x65E5] \<in> set (values_of store_many FKanji e')} = 1
   \<and> rank store_many QKanji [0x65E5] 61 = 1
   \<and> (\<exists>rows.
         search_handler (exec_stmt store_many) (QString [0x65E5]) =
           ((200, Results rows),
            [Classify [0x65E5], Query (Stmt QKanji Primary) (primary_params QKanji [0x65E5])])
         \<and> Some (SqlInt 61) \<in> set (map (\<lambda>row. map_of row ''id'') rows)
         \<and> map_of (hd rows) ''id'' = Some (SqlInt 61))"
proof -
  have a: "detectQueryType [0x65E5] = QKanji"
    by (simp add: detectQueryType_def is_kanji_char_def)
  have b: "field_of QKanji = Some FKanji" by simp
  have c: "[0x65E5] \<in> set (values_of store_many FKanji 61)"
    unfolding mem_values_of by (auto simp: store_many_def)
  have d: "61 \<in> set (entries store_many)" by (simp add: store_many_def)
  have only: "\<forall>e' \<in> set (entries store_many). e' \<noteq> 61 \<longrightarrow>
      [0x65E5] \<notin> set (values_of store_many FKanji e')"
    using store_many_owners by blast
  have one: "card {e' \<in> set (entries store_many).
      [0x65E5] \<in> set (values_of store_many FKanji e')} = 1"
    unfolding store_many_owners by simp
  have "61 \<notin> int ` {1..<61}" by auto
  then have many: "card {e' \<in> set (entries store_many). has_like store_many QKanji [0x65E5] e'}
      = 61"
    unfolding store_many_matches by (simp add: card_image)
  from exact_value_ranked_first [OF a b c d] obtain rows where
    h: "search_handler (exec_stmt store_many) (QString [0x65E5]) =
          ((200, Results rows),
           [Classify [0x65E5], Query (Stmt QKanji Primary) (primary_params QKanji [0x65E5])])"
    and r: "rank store_many QKanji [0x65E5] 61 = 1"
    and i: "card {e' \<in> set (entries store_many).
              [0x65E5] \<in> set (values_of store_many FKanji e')} \<le> 50 \<longrightarrow>
            Some (SqlInt 61) \<in> set (map (\<lambda>row. map_of row ''id'') rows)"
    and f: "(\<forall>e' \<in> set (entries store_many). e' \<noteq> 61 \<longrightarrow>
               [0x65E5] \<notin> set (values_of store_many FKanji e')) \<longrightarrow>
            map_of (hd rows) ''id'' = Some (SqlInt 61)"
    by blast
  from i one have "Some (SqlInt 61) \<in> set (map (\<lambda>row. map_of row ''id'') rows)" by simp
  moreover from f only have "map_of (hd rows) ''id'' = Some (SqlInt 61)" by blast
  ultimately show ?thesis using a b c d many one r h by blast
qed

lemma store_sixty_owners:
  "{e \<in> set (entries store_sixty). ustr ''cat'' \<in> set (values_of store_sixty FMeaning e)}
     = int ` {1..<61}"
  unfolding mem_values_of by (auto simp: store_sixty_def)

lemma store_sixty_rows:
  "fst (fst (search_handler (exec_stmt store_sixty) (QString (ustr ''cat'')))) = 200
   \<and> length (result_rows (snd (fst (search_handler (exec_stmt store_sixty)
        (QString (ustr ''cat'')))))) \<le> 50"
proof -
  have ne: "ustr ''cat'' \<noteq> []" by (simp add: ustr_def)
  have qt: "detectQueryType (ustr ''cat'') = QEnglish"
    by (simp add: detectQueryType_def is_kanji_char_def is_kana_char_def is_english_char_def ustr_def)
  have "length (groups store_sixty (primary_ids store_sixty QEnglish (ustr ''cat''))) = 60"
    by (simp add: length_primary_groups store_sixty_card)
  then have "groups store_sixty (primary_ids store_sixty QEnglish (ustr ''cat'')) \<noteq> []" by auto
  then have "select_ranked store_sixty (primary_ids store_sixty QEnglish (ustr ''cat''))
      (case_fn QEnglish (ustr ''cat'')) (order_fn store_sixty QEnglish (ustr ''cat'')) \<noteq> []"
    by (simp add: select_ranked_result_groups result_groups_Nil)
  then obtain rows trace where
    h: "search_handler (exec_stmt store_sixty) (QString (ustr ''cat'')) = ((200, Results rows), trace)"
    unfolding search_handler_nonempty [OF ne] qt exec_primary by simp
  from handler_rows [OF h] obtain query ids where
    "rows = map (\<lambda>eg. columns (fst eg) (snd eg))
       (result_groups store_sixty ids (case_fn (detectQueryType query) query)
          (order_fn store_sixty (detectQueryType query) query))"
    by blast
  then have "length rows \<le> 50" by (simp add: length_result_groups)
  with h show ?thesis by simp
qed

text \<open>
  C4 as stated fails, in both of its parts. Entries 1 and 2 of \<open>store_homograph\<close> both own
  the kanji form U+65E5, the query; both have rank 1, and entry 2, whose least form
  U+4E00 U+4E8C has length 2, is returned second, not first. In \<open>store_sixty\<close> sixty
  entries own the meaning \<^verbatim>\<open>cat\<close>, the query, and the list has at most 50 rows: ten
  owning entries at least are not in it.
\<close>

theorem exact_value_not_first_counterexample:
  "detectQueryType [0x65E5] = QKanji
   \<and> [0x65E5] \<in> set (values_of store_homograph FKanji 2)
   \<and> 2 \<in> set (entries store_homograph)
   \<and> search_handler (exec_stmt store_homograph) (QString [0x65E5]) =
       ((200, Results
          [[(''id'', SqlInt 1), (''kanji'', SqlText [0x65E5]), (''readings'', SqlNull),
            (''meanings'', SqlNull)],
           [(''id'', SqlInt 2), (''kanji'', SqlText [0x65E5, 44, 0x4E00, 0x4E8C]),
            (''readings'', SqlNull), (''meanings'', SqlNull)]]),
        [Classify [0x65E5],
         Query (Stmt QKanji Primary) [[0x65E5], [37, 0x65E5, 37], [37, 0x65E5, 37]]])
   \<and> detectQueryType (ustr ''cat'') = QEnglish
   \<and> card {e \<in> set (entries store_sixty).
              ustr ''cat'' \<in> set (values_of store_sixty FMeaning e)} = 60
   \<and> fst (fst (search_handler (exec_stmt store_sixty) (QString (ustr ''cat'')))) = 200
   \<and> length (result_rows (snd (fst (search_handler (exec_stmt store_sixty)
        (QString (ustr ''cat'')))))) \<le> 50"
proof -
  have h: "detectQueryType [0x65E5] = QKanji
   \<and> [0x65E5] \<in> set (values_of store_homograph FKanji 2)
   \<and> 2 \<in> set (entries store_homograph)
   \<and> search_handler (exec_stmt store_homograph) (QString [0x65E5]) =
       ((200, Results
          [[(''id'', SqlInt 1), (''kanji'', SqlText [0x65E5]), (''readings'', SqlNull),
            (''meanings'', SqlNull)],
           [(''id'', SqlInt 2), (''kanji'', SqlText [0x65E5, 44, 0x4E00, 0x4E8C]),
            (''readings'', SqlNull), (''meanings'', SqlNull)]]),
        [Classify [0x65E5],
         Query (Stmt QKanji Primary) [[0x65E5], [37, 0x65E5, 37], [37, 0x65E5, 37]]])"
    by (simp add: store_homograph_def eval_defs)
  have qt: "detectQueryType (ustr ''cat'') = QEnglish"
    by (simp add: detectQueryType_def is_kanji_char_def is_kana_char_def is_english_char_def ustr_def)
  have c: "card {e \<in> set (entries store_sixty).
              ustr ''cat'' \<in> set (values_of store_sixty FMeaning e)} = 60"
    unfolding store_sixty_owners by (simp add: card_image)
  from h qt c store_sixty_rows show ?thesis by (intro conjI) simp_all
qed

section \<open>Selection of the primary pass\<close>

text \<open>
  C5, as the code has it: the rows of the primary pass are entries of the table of entries
  with a value of the searched field that matches \<^verbatim>\<open>LIKE '%query%'\<close>, and all of them
  when they are at most 50. For a query without U+0000, \<^verbatim>\<open>%\<close> and \<^verbatim>\<open>_\<close>, as
  every kana and English query is, these are the entries with a value that contains the
  query as a substring, upper and lower case ASCII letters taken as equal and the value read
  up to its first U+0000: a value that differs from the query in letter case only is
  selected.
\<close>

theorem primary_pass_selects_nocase_matches:
  assumes "0 \<notin> set q" and "37 \<notin> set q" and "95 \<notin> set q"
    and "exec_stmt s (Stmt qt Primary) (primary_params qt q) = Inr rows"
  shows "set (map (\<lambda>row. map_of row ''id'') rows)
           \<subseteq> (\<lambda>e. Some (SqlInt e)) ` {e \<in> set (entries s). contains_nocase s qt q e}
         \<and> (card {e \<in> set (entries s). contains_nocase s qt q e} \<le> 50 \<longrightarrow>
              set (map (\<lambda>row. map_of row ''id'') rows)
                = (\<lambda>e. Some (SqlInt e)) ` {e \<in> set (entries s). contains_nocase s qt q e})"
proof -
  let ?G = "groups s (primary_ids s qt q)"
  let ?L = "result_groups s (primary_ids s qt q) (case_fn qt q) (order_fn s qt q)"
  let ?M = "{e \<in> set (entries s). contains_nocase s qt q e}"
  have M: "fst ` set ?G = ?M"
    by (simp add: set_fst_groups mem_primary_ids has_like_nocase [OF assms(1,2,3)])
  have rows: "rows = map (\<lambda>eg. columns (fst eg) (snd eg) @
      [(''match_type'', SqlInt (match_type (case_fn qt q) (snd eg)))]) ?L"
    using assms(4) unfolding exec_primary select_ranked_result_groups by simp
  have ids: "set (map (\<lambda>row. map_of row ''id'') rows) = (\<lambda>e. Some (SqlInt e)) ` fst ` set ?L"
    unfolding rows by (auto simp: columns_def image_iff)
  have sub: "fst ` set ?L \<subseteq> ?M"
    using set_result_groups [of s "primary_ids s qt q"] M by blast
  have eq: "fst ` set ?L = ?M" if "card ?M \<le> 50"
  proof -
    from that have "length ?G \<le> 50" using M length_groups [of s "primary_ids s qt q"]
      by (simp add: mem_primary_ids has_like_nocase [OF assms(1,2,3)])
    then have "mset ?L = mset ?G" by (rule result_groups_small)
    then have "set ?L = set ?G" by (rule mset_eq_setD)
    with M show ?thesis by simp
  qed
  show ?thesis unfolding ids using sub eq by auto
qed

theorem primary_pass_selects_nocase_matches_witness:
  "0 \<notin> set (ustr ''japan'') \<and> 37 \<notin> set (ustr ''japan'') \<and> 95 \<notin> set (ustr ''japan'')
   \<and> exec_stmt store_japan (Stmt QEnglish Primary) (primary_params QEnglish (ustr ''japan'')) =
       Inr [[(''id'', SqlInt 1), (''kanji'', SqlNull), (''readings'', SqlNull),
             (''meanings'', SqlText (ustr ''Japan'')), (''match_type'', SqlInt 2)]]
   \<and> {e \<in> set (entries store_japan). contains_nocase store_japan QEnglish (ustr ''japan'') e} = {1}
   \<and> set (map (\<lambda>row. map_of row ''id'')
        [[(''id'', SqlInt 1), (''kanji'', SqlNull), (''readings'', SqlNull),
          (''meanings'', SqlText (ustr ''Japan'')), (''match_type'', SqlInt 2)]])
       = (\<lambda>e. Some (SqlInt e)) ` {1}"
proof -
  have z: "0 \<notin> set (ustr ''japan'')" and a: "37 \<notin> set (ustr ''japan'')"
    and b: "95 \<notin> set (ustr ''japan'')"
    by (simp_all add: ustr_def)
  have m: "{e \<in> set (entries store_japan). contains_nocase store_japan QEnglish (ustr ''japan'') e}
      = {1}"
    by (auto simp: store_japan_def contains_nocase_def values_of_def ustr_def ascii_lower_def
        c_string_def sublist_Cons_right)
  from primary_pass_selects_nocase_matches [OF z a b store_japan_primary]
  have "set (map (\<lambda>row. map_of row ''id'')
        [[(''id'', SqlInt 1), (''kanji'', SqlNull), (''readings'', SqlNull),
          (''meanings'', SqlText (ustr ''Japan'')), (''match_type'', SqlInt 2)]])
       = (\<lambda>e. Some (SqlInt e)) ` {1}"
    unfolding m by simp
  with z a b m store_japan_primary show ?thesis by simp
qed

text \<open>
  C5 as stated fails: the query \<^verbatim>\<open>japan\<close> is English, the only meaning of entry 1 is
  \<^verbatim>\<open>Japan\<close>, which does not contain the query as a case-sensitive substring, and the
  primary pass selects entry 1 (no full-text statement runs).
\<close>

theorem case_sensitive_selection_counterexample:
  "detectQueryType (ustr ''japan'') = QEnglish
   \<and> values_of store_japan FMeaning 1 = [ustr ''Japan'']
   \<and> \<not> sublist (ustr ''japan'') (ustr ''Japan'')
   \<and> search_handler (exec_stmt store_japan) (QString (ustr ''japan'')) =
       ((200, Results [[(''id'', SqlInt 1), (''kanji'', SqlNull), (''readings'', SqlNull),
                        (''meanings'', SqlText (ustr ''Japan''))]]),
        [Classify (ustr ''japan''),
         Query (Stmt QEnglish Primary) [ustr ''japan'', ustr ''%japan%'', ustr ''%japan%'']])"
  by (simp add: store_japan_def eval_defs sublist_Cons_right)

section \<open>Ranks of the two passes\<close>

text \<open>
  C6, as the code has it: in every category, a row that the primary pass returns has
  \<open>match_type\<close> 1 or 2, and a row that the full-text pass returns has \<open>match_type\<close> 3
  (the full-text pass runs only when no entry has a value that matches the \<^verbatim>\<open>LIKE\<close>
  pattern, so none of its rows has an equal or a matching value). Rank 3 belongs to the
  full-text pass, not to the mixed category.
\<close>

theorem rank_three_only_in_fallback:
  assumes "run_search (exec_stmt s) qt query = (Inr results, trace)" and "row \<in> set results"
  shows "(trace = [Query (Stmt qt Primary) (primary_params qt query)]
            \<and> (map_of row ''match_type'' = Some (SqlInt 1)
                \<or> map_of row ''match_type'' = Some (SqlInt 2)))
         \<or> (trace = [Query (Stmt qt Primary) (primary_params qt query),
                     Query (Stmt qt Fallback) (fallback_params qt query)]
            \<and> map_of row ''match_type'' = Some (SqlInt 3))"
proof (cases "groups s (primary_ids s qt query) = []")
  case False
  with assms(1) have tr: "trace = [Query (Stmt qt Primary) (primary_params qt query)]"
    and res: "results = select_ranked s (primary_ids s qt query) (case_fn qt query) (order_fn s qt query)"
    unfolding run_search_exec by auto
  from select_ranked_row [OF assms(2) [unfolded res]] obtain e g where
    eg: "(e, g) \<in> set (groups s (primary_ids s qt query))"
    and row: "row = columns e g @ [(''match_type'', SqlInt (rank s qt query e))]" by blast
  show ?thesis using tr rank_primary [OF eg] unfolding row map_of_match_type by auto
next
  case True
  with assms(1) obtain ids where
    tr: "trace = [Query (Stmt qt Primary) (primary_params qt query),
                  Query (Stmt qt Fallback) (fallback_params qt query)]"
    and res: "results = select_ranked s ids (case_fn qt query) (order_fn s qt query)"
    unfolding run_search_exec by (auto split: sum.splits)
  from select_ranked_row [OF assms(2) [unfolded res]] obtain e g where
    eg: "(e, g) \<in> set (groups s ids)"
    and row: "row = columns e g @ [(''match_type'', SqlInt (rank s qt query e))]" by blast
  show ?thesis using tr rank_fallback [OF True eg] unfolding row map_of_match_type by auto
qed

theorem rank_three_only_in_fallback_witness:
  "run_search (exec_stmt store_eat) QEnglish (ustr ''to eat'') =
     (Inr [[(''id'', SqlInt 1), (''kanji'', SqlNull), (''readings'', SqlNull),
            (''meanings'', SqlText (ustr ''eat to live'')), (''match_type'', SqlInt 3)]],
      [Query (Stmt QEnglish Primary) [ustr ''to eat'', ustr ''%to eat%'', ustr ''%to eat%''],
       Query (Stmt QEnglish Fallback) [ustr ''to eat'', ustr ''%to eat%'', ustr ''to eat*'']])
   \<and> map_of [(''id'', SqlInt 1), (''kanji'', SqlNull), (''readings'', SqlNull),
            (''meanings'', SqlText (ustr ''eat to live'')), (''match_type'', SqlInt 3)]
         ''match_type'' = Some (SqlInt 3)"
  using rank_three_only_in_fallback [OF store_eat_search, of
      "[(''id'', SqlInt 1), (''kanji'', SqlNull), (''readings'', SqlNull),
        (''meanings'', SqlText (ustr ''eat to live'')), (''match_type'', SqlInt 3)]"]
    store_eat_search
  by simp

text \<open>
  C6 as stated fails: the query \<^verbatim>\<open>to eat\<close> is English, no meaning contains it, and
  the full-text index answers \<^verbatim>\<open>to eat*\<close> with the row \<^verbatim>\<open>eat to live\<close>
  (both words match, in any order); the returned entry has \<open>match_type\<close> 3.
\<close>

theorem fallback_rank_three_counterexample:
  "detectQueryType (ustr ''to eat'') = QEnglish
   \<and> run_search (exec_stmt store_eat) QEnglish (ustr ''to eat'') =
     (Inr [[(''id'', SqlInt 1), (''kanji'', SqlNull), (''readings'', SqlNull),
            (''meanings'', SqlText (ustr ''eat to live'')), (''match_type'', SqlInt 3)]],
      [Query (Stmt QEnglish Primary) [ustr ''to eat'', ustr ''%to eat%'', ustr ''%to eat%''],
       Query (Stmt QEnglish Fallback) [ustr ''to eat'', ustr ''%to eat%'', ustr ''to eat*'']])"
  unfolding store_eat_search
  by (simp add: detectQueryType_def is_kanji_char_def is_kana_char_def is_english_char_def
      is_js_space_def ustr_def)

section \<open>Fields of a returned row\<close>

text \<open>
  C8: every row that the route returns has exactly the fields \<open>id\<close>, \<open>kanji\<close>,
  \<open>readings\<close> and \<open>meanings\<close>, in this order and without \<open>match_type\<close>; the id is
  an entry of the store, and each of the three other fields is the comma-joined list of the
  entry's values of that kind, each value once (\<^verbatim>\<open>NULL\<close> when the entry has none).
\<close>

theorem result_fields_distinct_joined:
  assumes "search_handler (exec_stmt s) q = ((status, Results rows), trace)"
    and "row \<in> set rows"
  shows "\<exists>e kv rv mv.
           row = [(''id'', SqlInt e), (''kanji'', kv), (''readings'', rv), (''meanings'', mv)]
           \<and> e \<in> set (entries s)
           \<and> joined_distinct (values_of s FKanji e) kv
           \<and> joined_distinct (values_of s FReading e) rv
           \<and> joined_distinct (values_of s FMeaning e) mv"
proof -
  from handler_rows [OF assms(1)] obtain query ids where
    rows: "rows = map (\<lambda>eg. columns (fst eg) (snd eg))
       (result_groups s ids (case_fn (detectQueryType query) query)
          (order_fn s (detectQueryType query) query))"
    by blast
  with assms(2) obtain eg where "eg \<in> set (result_groups s ids
      (case_fn (detectQueryType query) query) (order_fn s (detectQueryType query) query))"
    and row': "row = columns (fst eg) (snd eg)" by auto
  then have "(fst eg, snd eg) \<in> set (groups s ids)"
    using set_result_groups [of s ids] by auto
  with row' obtain e g where eg: "(e, g) \<in> set (groups s ids)" and row: "row = columns e g"
    by blast
  have "e \<in> set (entries s)" using group_rows(1) [OF eg] .
  then show ?thesis
    unfolding row columns_def using group_concat_joined_distinct [OF eg] by blast
qed

theorem result_fields_distinct_joined_witness:
  "search_handler (exec_stmt store_taberu) (QString [0x98DF, 0x3079, 0x308B]) =
     ((200, Results
        [[(''id'', SqlInt 1), (''kanji'', SqlText [0x98DF, 0x3079, 0x308B]),
          (''readings'', SqlText [0x305F, 0x3079, 0x308B, 44, 0x30BF, 0x30D9, 0x30EB]),
          (''meanings'', SqlText (ustr ''to eat,to live on''))]]),
      [Classify [0x98DF, 0x3079, 0x308B],
       Query (Stmt QKanji Primary)
         [[0x98DF, 0x3079, 0x308B], [37, 0x98DF, 0x3079, 0x308B, 37],
          [37, 0x98DF, 0x3079, 0x308B, 37]]])
   \<and> length (joined store_taberu) = 4
   \<and> joined_distinct (values_of store_taberu FKanji 1) (SqlText [0x98DF, 0x3079, 0x308B])
   \<and> joined_distinct (values_of store_taberu FReading 1)
        (SqlText [0x305F, 0x3079, 0x308B, 44, 0x30BF, 0x30D9, 0x30EB])
   \<and> joined_distinct (values_of store_taberu FMeaning 1) (SqlText (ustr ''to eat,to live on''))"
  using result_fields_distinct_joined [OF store_taberu_search, of
      "[(''id'', SqlInt 1), (''kanji'', SqlText [0x98DF, 0x3079, 0x308B]),
        (''readings'', SqlText [0x305F, 0x3079, 0x308B, 44, 0x30BF, 0x30D9, 0x30EB]),
        (''meanings'', SqlText (ustr ''to eat,to live on''))]"]
    store_taberu_search length_joined_taberu
  by auto

section \<open>Missing queries and store failures\<close>

text \<open>
  C9: when \<^verbatim>\<open>q\<close> is missing or empty the response is 400 with the message
  \<^verbatim>\<open>Missing query parameter: q\<close>, and the trace is empty: nothing is classified and
  no statement runs. When the primary statement raises, or returns no row and the full-text
  statement raises, the response is 500 with \<^verbatim>\<open>Database search error\<close> and the
  message of the error, and the failed statement is the last of the trace: nothing is run
  again.
\<close>

theorem search_handler_error_boundary:
  "search_handler db QMissing = ((400, ErrorBody ''Missing query parameter: q''), [])
   \<and> search_handler db (QString []) = ((400, ErrorBody ''Missing query parameter: q''), [])
   \<and> (\<forall>query qt msg. query \<noteq> [] \<and> qt = detectQueryType query
          \<and> db (Stmt qt Primary) (primary_params qt query) = Inl msg \<longrightarrow>
        search_handler db (QString query) =
          ((500, ErrorDetails ''Database search error'' msg),
           [Classify query, Query (Stmt qt Primary) (primary_params qt query)]))
   \<and> (\<forall>query qt msg. query \<noteq> [] \<and> qt = detectQueryType query
          \<and> db (Stmt qt Primary) (primary_params qt query) = Inr []
          \<and> db (Stmt qt Fallback) (fallback_params qt query) = Inl msg \<longrightarrow>
        search_handler db (QString query) =
          ((500, ErrorDetails ''Database search error'' msg),
           [Classify query, Query (Stmt qt Primary) (primary_params qt query),
            Query (Stmt qt Fallback) (fallback_params qt query)]))"
proof (intro conjI allI impI)
  show "search_handler db QMissing = ((400, ErrorBody ''Missing query parameter: q''), [])"
    by (simp add: search_handler_def)
  show "search_handler db (QString []) = ((400, ErrorBody ''Missing query parameter: q''), [])"
    by (simp add: search_handler_def)
next
  fix query qt msg
  assume a: "query \<noteq> [] \<and> qt = detectQueryType query
          \<and> db (Stmt qt Primary) (primary_params qt query) = Inl msg"
  then have ne: "query \<noteq> []" and qt: "detectQueryType query = qt"
    and p: "db (Stmt qt Primary) (primary_params qt query) = Inl msg" by auto
  show "search_handler db (QString query) =
          ((500, ErrorDetails ''Database search error'' msg),
           [Classify query, Query (Stmt qt Primary) (primary_params qt query)])"
    unfolding search_handler_nonempty [OF ne] qt p by simp
next
  fix query qt msg
  assume a: "query \<noteq> [] \<and> qt = detectQueryType query
          \<and> db (Stmt qt Primary) (primary_params qt query) = Inr []
          \<and> db (Stmt qt Fallback) (fallback_params qt query) = Inl msg"
  then have ne: "query \<noteq> []" and qt: "detectQueryType query = qt"
    and p: "db (Stmt qt Primary) (primary_params qt query) = Inr []"
    and f: "db (Stmt qt Fallback) (fallback_params qt query) = Inl msg" by auto
  show "search_handler db (QString query) =
          ((500, ErrorDetails ''Database search error'' msg),
           [Classify query, Query (Stmt qt Primary) (primary_params qt query),
            Query (Stmt qt Fallback) (fallback_params qt query)])"
    unfolding search_handler_nonempty [OF ne] qt p f by simp
qed

theorem search_handler_error_boundary_witness:
  "search_handler (exec_stmt store_fts_quote) QMissing
     = ((400, ErrorBody ''Missing query parameter: q''), [])
   \<and> search_handler (exec_stmt store_fts_quote) (QString [])
     = ((400, ErrorBody ''Missing query parameter: q''), [])
   \<and> search_handler db_unreachable (QString (ustr ''cat''))
     = ((500, ErrorDetails ''Database search error'' ''disk I/O error''),
        [Classify (ustr ''cat''),
         Query (Stmt QEnglish Primary) [ustr ''cat'', ustr ''%cat%'', ustr ''%cat%'']])
   \<and> search_handler (exec_stmt store_fts_quote) (QString [34])
     = ((500, ErrorDetails ''Database search error'' ''unterminated string''),
        [Classify [34], Query (Stmt QAll Primary) (primary_params QAll [34]),
         Query (Stmt QAll Fallback) (fallback_params QAll [34])])"
proof -
  have q1: "ustr ''cat'' \<noteq> [] \<and> QEnglish = detectQueryType (ustr ''cat'')
      \<and> db_unreachable (Stmt QEnglish Primary) (primary_params QEnglish (ustr ''cat''))
          = Inl ''disk I/O error''"
    by (simp add: detectQueryType_def is_kanji_char_def is_kana_char_def is_english_char_def
        is_js_space_def ustr_def db_unreachable_def)
  have q2: "[34] \<noteq> [] \<and> QAll = detectQueryType [34]
      \<and> exec_stmt store_fts_quote (Stmt QAll Primary) (primary_params QAll [34]) = Inr []
      \<and> exec_stmt store_fts_quote (Stmt QAll Fallback) (fallback_params QAll [34])
          = Inl ''unterminated string''"
    by (simp add: store_fts_quote_def eval_defs)
  have pp: "primary_params QEnglish (ustr ''cat'') = [ustr ''cat'', ustr ''%cat%'', ustr ''%cat%'']"
    by (simp add: primary_params_def pct_def ustr_def)
  from search_handler_error_boundary [of "exec_stmt store_fts_quote"]
  have a: "search_handler (exec_stmt store_fts_quote) QMissing
       = ((400, ErrorBody ''Missing query parameter: q''), [])"
    and b: "search_handler (exec_stmt store_fts_quote) (QString [])
       = ((400, ErrorBody ''Missing query parameter: q''), [])"
    and d: "\<forall>query qt msg. query \<noteq> [] \<and> qt = detectQueryType query
          \<and> exec_stmt store_fts_quote (Stmt qt Primary) (primary_params qt query) = Inr []
          \<and> exec_stmt store_fts_quote (Stmt qt Fallback) (fallback_params qt query) = Inl msg \<longrightarrow>
        search_handler (exec_stmt store_fts_quote) (QString query) =
          ((500, ErrorDetails ''Database search error'' msg),
           [Classify query, Query (Stmt qt Primary) (primary_params qt query),
            Query (Stmt qt Fallback) (fallback_params qt query)])"
    by blast+
  from search_handler_error_boundary [of db_unreachable]
  have c: "\<forall>query qt msg. query \<noteq> [] \<and> qt = detectQueryType query
          \<and> db_unreachable (Stmt qt Primary) (primary_params qt query) = Inl msg \<longrightarrow>
        search_handler db_unreachable (QString query) =
          ((500, ErrorDetails ''Database search error'' msg),
           [Classify query, Query (Stmt qt Primary) (primary_params qt query)])"
    by blast
  from c q1 have c': "search_handler db_unreachable (QString (ustr ''cat''))
     = ((500, ErrorDetails ''Database search error'' ''disk I/O error''),
        [Classify (ustr ''cat''),
         Query (Stmt QEnglish Primary) (primary_params QEnglish (ustr ''cat''))])"
    by blast
  from d q2 have d': "search_handler (exec_stmt store_fts_quote) (QString [34])
     = ((500, ErrorDetails ''Database search error'' ''unterminated string''),
        [Classify [34], Query (Stmt QAll Primary) (primary_params QAll [34]),
         Query (Stmt QAll Fallback) (fallback_params QAll [34])])"
    by blast
  show ?thesis using a b c' d' by (simp add: pp)
qed

section \<open>The versions with and without ranking\<close>



end
